theory Spec2Isabelle
  imports Main "HOL-Library.Multiset"
begin

section \<open>Go strings as byte lists\<close>

text \<open>
  A Go \<open>string\<close> is a sequence of bytes; it is modelled as \<open>string\<close> (a list of
  8-bit characters).  The functions of package \<open>strings\<close> that the shader repair code
  calls are written out here with Go's results on every input.
\<close>

abbreviation NL :: char where "NL \<equiv> CHR 0x0A"
abbreviation CR :: char where "CR \<equiv> CHR 0x0D"
abbreviation TAB :: char where "TAB \<equiv> CHR 0x09"
abbreviation BSLASH :: char where "BSLASH \<equiv> CHR 0x5C"
abbreviation DQUOTE :: char where "DQUOTE \<equiv> CHR 0x22"

text \<open>\<open>strings.HasPrefix(s, p)\<close>.\<close>

fun HasPrefix :: "string \<Rightarrow> string \<Rightarrow> bool" where
  "HasPrefix s [] = True"
| "HasPrefix [] (p # ps) = False"
| "HasPrefix (c # cs) (p # ps) = (c = p \<and> HasPrefix cs ps)"

text \<open>\<open>strings.HasSuffix(s, p)\<close>.\<close>

definition HasSuffix :: "string \<Rightarrow> string \<Rightarrow> bool" where
  "HasSuffix s p = HasPrefix (rev s) (rev p)"

text \<open>\<open>strings.Contains(s, sub)\<close>: the empty string is contained in every string.\<close>

fun Contains :: "string \<Rightarrow> string \<Rightarrow> bool" where
  "Contains [] sub = (sub = [])"
| "Contains (c # cs) sub = (HasPrefix (c # cs) sub \<or> Contains cs sub)"

text \<open>\<open>strings.Index(s, sub)\<close>: the first byte offset of \<open>sub\<close>; Go's \<open>-1\<close> is \<open>None\<close>.\<close>

fun strings_Index :: "string \<Rightarrow> string \<Rightarrow> nat option" where
  "strings_Index [] sub = (if sub = [] then Some 0 else None)"
| "strings_Index (c # cs) sub =
     (if HasPrefix (c # cs) sub then Some 0 else map_option Suc (strings_Index cs sub))"

text \<open>\<open>strings.Replace(s, old, new, 1)\<close>: only the first occurrence is replaced.\<close>

definition Replace1 :: "string \<Rightarrow> string \<Rightarrow> string \<Rightarrow> string" where
  "Replace1 s old new =
     (case strings_Index s old of
        None \<Rightarrow> s
      | Some i \<Rightarrow> take i s @ new @ drop (i + length old) s)"

text \<open>\<open>strings.Split(s, "\n")\<close>: one more piece than there are newlines.\<close>

fun Split :: "string \<Rightarrow> string list" where
  "Split [] = [[]]"
| "Split (c # cs) =
     (if c = NL then [] # Split cs
      else (case Split cs of [] \<Rightarrow> [[c]] | l # ls \<Rightarrow> (c # l) # ls))"

text \<open>\<open>strings.Join(lines, "\n")\<close>; a nil slice joins to the empty string.\<close>

fun Join :: "string list \<Rightarrow> string" where
  "Join [] = []"
| "Join [l] = l"
| "Join (l # m # ls) = l @ NL # Join (m # ls)"

text \<open>\<open>strings.Count(s, "c")\<close> for a one-byte separator.\<close>

definition Count :: "string \<Rightarrow> char \<Rightarrow> nat" where
  "Count s c = length (filter (\<lambda>d. d = c) s)"

text \<open>
  \<open>strings.TrimSpace\<close> removes leading and trailing white space as
  \<open>unicode.IsSpace\<close> defines it.  On bytes: the six ASCII spaces, and the UTF-8
  encodings of U+0085, U+00A0, U+1680, U+2000 to U+200A, U+2028, U+2029, U+202F, U+205F
  and U+3000.  \<open>leadingSpace\<close> is the width of a white-space rune at the front of the
  string (0 when there is none), \<open>trailingSpace\<close> the same for the reversed string.
\<close>

definition asciiSpace :: "char \<Rightarrow> bool" where
  "asciiSpace c =
     (c = TAB \<or> c = NL \<or> c = CHR 0x0B \<or> c = CHR 0x0C \<or> c = CR \<or> c = CHR 0x20)"

definition space3 :: "char \<Rightarrow> char \<Rightarrow> char \<Rightarrow> bool" where
  "space3 a b c =
     ((a = CHR 0xE1 \<and> b = CHR 0x9A \<and> c = CHR 0x80) \<or>
      (a = CHR 0xE2 \<and> b = CHR 0x80 \<and>
         ((0x80 \<le> (of_char c :: nat) \<and> (of_char c :: nat) \<le> 0x8A) \<or>
          c = CHR 0xA8 \<or> c = CHR 0xA9 \<or> c = CHR 0xAF)) \<or>
      (a = CHR 0xE2 \<and> b = CHR 0x81 \<and> c = CHR 0x9F) \<or>
      (a = CHR 0xE3 \<and> b = CHR 0x80 \<and> c = CHR 0x80))"

definition space2 :: "char \<Rightarrow> char \<Rightarrow> bool" where
  "space2 a b = (a = CHR 0xC2 \<and> (b = CHR 0x85 \<or> b = CHR 0xA0))"

fun leadingSpace :: "string \<Rightarrow> nat" where
  "leadingSpace [] = 0"
| "leadingSpace [a] = (if asciiSpace a then 1 else 0)"
| "leadingSpace [a, b] = (if asciiSpace a then 1 else if space2 a b then 2 else 0)"
| "leadingSpace (a # b # c # r) =
     (if asciiSpace a then 1 else if space2 a b then 2 else if space3 a b c then 3 else 0)"

fun trailingSpace :: "string \<Rightarrow> nat" where
  "trailingSpace [] = 0"
| "trailingSpace [a] = (if asciiSpace a then 1 else 0)"
| "trailingSpace [b, a] = (if asciiSpace b then 1 else if space2 a b then 2 else 0)"
| "trailingSpace (c # b # a # r) =
     (if asciiSpace c then 1 else if space2 b c then 2 else if space3 a b c then 3 else 0)"

function trimLeftSpace :: "string \<Rightarrow> string" where
  "trimLeftSpace s =
     (if leadingSpace s = 0 then s else trimLeftSpace (drop (leadingSpace s) s))"
  by pat_completeness auto
termination
proof (relation "measure length")
  show "wf (measure length)" by simp
next
  fix s :: string
  assume "leadingSpace s \<noteq> 0"
  moreover have "leadingSpace s \<le> length s"
    by (induction s rule: leadingSpace.induct) auto
  ultimately show "(drop (leadingSpace s) s, s) \<in> measure length" by simp
qed

function trimRevSpace :: "string \<Rightarrow> string" where
  "trimRevSpace s =
     (if trailingSpace s = 0 then s else trimRevSpace (drop (trailingSpace s) s))"
  by pat_completeness auto
termination
proof (relation "measure length")
  show "wf (measure length)" by simp
next
  fix s :: string
  assume "trailingSpace s \<noteq> 0"
  moreover have "trailingSpace s \<le> length s"
    by (induction s rule: trailingSpace.induct) auto
  ultimately show "(drop (trailingSpace s) s, s) \<in> measure length" by simp
qed

declare trimLeftSpace.simps [simp del]
declare trimRevSpace.simps [simp del]

definition TrimSpace :: "string \<Rightarrow> string" where
  "TrimSpace s = rev (trimRevSpace (rev (trimLeftSpace s)))"

text \<open>\<open>strings.TrimLeft(s, " \t")\<close>.\<close>

definition TrimLeftBlank :: "string \<Rightarrow> string" where
  "TrimLeftBlank s = dropWhile (\<lambda>c. c = CHR 0x20 \<or> c = TAB) s"

section \<open>The shader container and pass selection\<close>

record ShaderInput =
  ID :: string
  Channel :: int
  Src :: string
  Type :: string

record ShaderPass =
  Index :: int
  Code :: string
  Inputs :: "ShaderInput list"
  Type :: string
  Name :: string

record ShaderMetadata =
  URL :: string
  ShaderID :: string
  Title :: string
  Description :: string
  NumPasses :: int

text \<open>
  \<open>ShaderData\<close>: the fields \<open>Performance\<close>, \<open>InputTextures\<close> and \<open>PassTextures\<close>
  are never read by the loader or the repair code and are left out.
\<close>

record ShaderData =
  Metadata :: "ShaderMetadata option"
  Passes :: "ShaderPass list"
  Screenshots :: "string list"

text \<open>
  The first lines of \<open>getMainShaderCode\<close>: the loop that looks for an image pass, and
  the fall-back to \<open>Passes[0]\<close>, which panics on an empty slice.
\<close>

datatype panic = IndexOutOfRange

definition isImagePass :: "ShaderPass \<Rightarrow> bool" where
  "isImagePass p = (ShaderPass.Type p = ''image'' \<or> Name p = ''Image'')"

fun findImagePass :: "ShaderPass list \<Rightarrow> ShaderPass option" where
  "findImagePass [] = None"
| "findImagePass (p # ps) = (if isImagePass p then Some p else findImagePass ps)"

definition mainPass :: "ShaderData \<Rightarrow> panic + ShaderPass" where
  "mainPass shaderData =
     (case findImagePass (Passes shaderData) of
        Some p \<Rightarrow> Inr p
      | None \<Rightarrow>
          (case Passes shaderData of
             [] \<Rightarrow> Inl IndexOutOfRange
           | p # ps \<Rightarrow> Inr p))"

section \<open>The string-literal escaper\<close>

definition hexDigit :: "nat \<Rightarrow> char" where
  "hexDigit n = ''0123456789abcdef'' ! (n mod 16)"

text \<open>\<open>fmt.Sprintf("\\u%04x", char)\<close> for a byte.\<close>

definition sprintf_u04x :: "char \<Rightarrow> string" where
  "sprintf_u04x c =
     (let n = (of_char c :: nat) in
      [BSLASH, CHR ''u'', hexDigit (n div 4096), hexDigit (n div 256),
       hexDigit (n div 16), hexDigit n])"

text \<open>The branch of \<open>preprocessJSON\<close> taken for a byte inside a string literal.\<close>

definition escapeInString :: "char \<Rightarrow> string" where
  "escapeInString c =
     (if c = NL then [BSLASH, CHR ''n'']
      else if c = CR then [BSLASH, CHR ''r'']
      else if c = TAB then [BSLASH, CHR ''t'']
      else if (of_char c :: nat) < 0x20 then sprintf_u04x c
      else [c])"

text \<open>
  The loop of \<open>preprocessJSON\<close>.  \<open>before\<close> holds the bytes already read, last one
  first (the loop counts the backslashes just before a quote), \<open>rest\<close> the bytes from
  index \<open>i\<close> on; the result is what the loop appends to the builder.
\<close>

fun escapeLoop :: "string \<Rightarrow> bool \<Rightarrow> bool \<Rightarrow> string \<Rightarrow> string" where
  "escapeLoop before inString escapeNext [] = []"
| "escapeLoop before inString escapeNext (c # rest) =
     (if escapeNext then c # escapeLoop (c # before) inString False rest
      else if c = BSLASH then c # escapeLoop (c # before) inString True rest
      else if c = DQUOTE then
        (let backslashCount = length (takeWhile (\<lambda>d. d = BSLASH) before) in
         c # escapeLoop (c # before)
               (if backslashCount mod 2 = 0 then \<not> inString else inString) False rest)
      else if inString then escapeInString c @ escapeLoop (c # before) inString False rest
      else c # escapeLoop (c # before) inString False rest)"

datatype load_error = EmptyData | PreprocessError | ParseError | NoPasses

text \<open>\<open>preprocessJSON\<close> returns the escaped bytes and, on every path, a nil error.\<close>

definition preprocessJSON :: "string \<Rightarrow> load_error + string" where
  "preprocessJSON data = Inr (escapeLoop [] False False data)"

text \<open>
  \<open>loadEmbeddedShader\<close>.  The embedded bytes \<open>shaderJSONData\<close> are the parameter
  \<open>data\<close>.  \<open>json.Unmarshal\<close> belongs to Go's standard library, not to this program:
  it is the parameter \<open>unmarshal\<close>, which gives \<open>None\<close> where Go returns an error.
\<close>

definition loadEmbeddedShader ::
  "(string \<Rightarrow> ShaderData option) \<Rightarrow> string \<Rightarrow> load_error + ShaderData" where
  "loadEmbeddedShader unmarshal data =
     (if length data = 0 then Inl EmptyData
      else (case preprocessJSON data of
              Inl err \<Rightarrow> Inl PreprocessError
            | Inr preprocessedData \<Rightarrow>
                (case unmarshal preprocessedData of
                   None \<Rightarrow> Inl ParseError
                 | Some shaderData \<Rightarrow>
                     if length (Passes shaderData) = 0 then Inl NoPasses
                     else Inr shaderData)))"

section \<open>The comment stripper\<close>

text \<open>
  The inner loop of \<open>removeComments\<close> over one line, from index \<open>i\<close> on: the bytes
  written to \<open>processedLine\<close> and the value of \<open>inBlockComment\<close> when the loop ends.
\<close>

fun stripLine :: "bool \<Rightarrow> string \<Rightarrow> string \<times> bool" where
  "stripLine inBlockComment [] = ([], inBlockComment)"
| "stripLine True [c] = stripLine True []"
| "stripLine True (c # d # rest) =
     (if c = CHR ''*'' \<and> d = CHR ''/'' then stripLine False rest
      else stripLine True (d # rest))"
| "stripLine False [c] = ([c], False)"
| "stripLine False (c # d # rest) =
     (if c = CHR ''/'' \<and> d = CHR ''*'' then stripLine True rest
      else if c = CHR ''/'' \<and> d = CHR ''/'' then ([], False)
      else (case stripLine False (d # rest) of (out, b) \<Rightarrow> (c # out, b)))"

text \<open>The outer loop: what is appended to \<open>result\<close> for the remaining lines.\<close>

fun stripLines :: "bool \<Rightarrow> string list \<Rightarrow> string" where
  "stripLines inBlockComment [] = []"
| "stripLines inBlockComment (line # lines) =
     (case stripLine inBlockComment line of
        (processedLine, inBlockComment') \<Rightarrow>
          (if TrimSpace processedLine \<noteq> [] \<or> \<not> inBlockComment'
           then processedLine @ [NL] @ stripLines inBlockComment' lines
           else stripLines inBlockComment' lines))"

definition removeComments :: "string \<Rightarrow> string" where
  "removeComments code = stripLines False (Split code)"

text \<open>
  The lines of a text with what the inner loop makes of each: the processed line and
  the block-comment flag after it, the flag carried from line to line.
\<close>

fun lineStates :: "bool \<Rightarrow> string list \<Rightarrow> (string \<times> bool) list" where
  "lineStates inBlockComment [] = []"
| "lineStates inBlockComment (line # lines) =
     (case stripLine inBlockComment line of
        (processedLine, inBlockComment') \<Rightarrow>
          (processedLine, inBlockComment') # lineStates inBlockComment' lines)"

section \<open>The escaper's contract, position by position\<close>

text \<open>
  The contract of the escaper in the words of its specification.  A byte is
  escape-consumed when an odd number of consecutive backslashes stands just before it.
  A quote toggles the string state when an even number of consecutive backslashes stands
  just before it.  A position is inside a string literal when an odd number of toggling
  quotes stands before it.
\<close>

definition backslashesBefore :: "string \<Rightarrow> nat \<Rightarrow> nat" where
  "backslashesBefore data i = length (takeWhile (\<lambda>d. d = BSLASH) (rev (take i data)))"

definition escapeConsumed :: "string \<Rightarrow> nat \<Rightarrow> bool" where
  "escapeConsumed data i = odd (backslashesBefore data i)"

definition togglingQuote :: "string \<Rightarrow> nat \<Rightarrow> bool" where
  "togglingQuote data j = (data ! j = DQUOTE \<and> even (backslashesBefore data j))"

definition insideString :: "string \<Rightarrow> nat \<Rightarrow> bool" where
  "insideString data i = odd (length (filter (togglingQuote data) [0..<i]))"

definition escapedByte :: "string \<Rightarrow> nat \<Rightarrow> string" where
  "escapedByte data i =
     (if insideString data i \<and> \<not> escapeConsumed data i
      then escapeInString (data ! i) else [data ! i])"

definition controlByte :: "char \<Rightarrow> bool" where
  "controlByte c = ((of_char c :: nat) < 0x20)"

section \<open>Regular expressions of package regexp\<close>

text \<open>
  The repair code compiles thirteen patterns.  All of them have one shape: an optional
  anchor (\<open>^\<close> or \<open>\b\<close>) and then a sequence of literals, single character classes,
  greedy repetitions of a character class, and capture groups whose alternatives are
  such sequences.  The matcher below gives Go's result for this shape: the leftmost
  match, and among the matches at one start the one that a backtracking search finds
  first (alternatives from left to right, repetitions longest first).
\<close>

datatype cclass = CSet string | CNot string | CSpace | CWord | CAlpha

definition isDigit :: "char \<Rightarrow> bool" where
  "isDigit c = (0x30 \<le> (of_char c :: nat) \<and> (of_char c :: nat) \<le> 0x39)"

definition isAlpha :: "char \<Rightarrow> bool" where
  "isAlpha c =
     ((0x41 \<le> (of_char c :: nat) \<and> (of_char c :: nat) \<le> 0x5A) \<or> c = CHR ''_'' \<or>
      (0x61 \<le> (of_char c :: nat) \<and> (of_char c :: nat) \<le> 0x7A))"

definition isWord :: "char \<Rightarrow> bool" where
  "isWord c = (isDigit c \<or> isAlpha c)"

definition isSpaceRE :: "char \<Rightarrow> bool" where
  "isSpaceRE c = (c = TAB \<or> c = NL \<or> c = CHR 0x0C \<or> c = CR \<or> c = CHR 0x20)"

fun inClass :: "cclass \<Rightarrow> char \<Rightarrow> bool" where
  "inClass (CSet s) c = (c \<in> set s)"
| "inClass (CNot s) c = (c \<notin> set s)"
| "inClass CSpace c = isSpaceRE c"
| "inClass CWord c = isWord c"
| "inClass CAlpha c = isAlpha c"

datatype satom = Lit string | One cclass | Rep cclass nat "nat option"

datatype atom = Plain satom | Group "satom list list"

datatype anchor = Anywhere | TextStart | WordBoundary

type_synonym regex = "anchor \<times> atom list"

text \<open>
  \<open>tryRep n mn k s\<close> gives \<open>n\<close>, then \<open>n - 1\<close>, ... down to \<open>mn\<close> bytes of \<open>s\<close>
  to a repetition and hands the rest to the continuation \<open>k\<close>; \<open>matchSeq\<close> matches a
  sequence inside or outside a group, \<open>firstAlt\<close> the alternatives of a group, and
  \<open>matchAtoms\<close> a whole pattern at the front of \<open>s\<close>, with the texts of its groups and
  the unmatched rest.
\<close>

fun tryRep :: "nat \<Rightarrow> nat \<Rightarrow> (string \<Rightarrow> 'a option) \<Rightarrow> string \<Rightarrow> 'a option" where
  "tryRep 0 mn k s = (if mn = 0 then k s else None)"
| "tryRep (Suc n) mn k s =
     (if Suc n < mn then None
      else (case k (drop (Suc n) s) of Some r \<Rightarrow> Some r | None \<Rightarrow> tryRep n mn k s))"

fun matchSeq :: "satom list \<Rightarrow> (string \<Rightarrow> 'a option) \<Rightarrow> string \<Rightarrow> 'a option" where
  "matchSeq [] k s = k s"
| "matchSeq (Lit l # as) k s =
     (if HasPrefix s l then matchSeq as k (drop (length l) s) else None)"
| "matchSeq (One c # as) k s =
     (case s of [] \<Rightarrow> None | x # xs \<Rightarrow> if inClass c x then matchSeq as k xs else None)"
| "matchSeq (Rep c mn mx # as) k s =
     (let n = length (takeWhile (inClass c) s);
          n' = (case mx of None \<Rightarrow> n | Some m \<Rightarrow> min m n)
      in tryRep n' mn (matchSeq as k) s)"

fun firstAlt :: "satom list list \<Rightarrow> (string \<Rightarrow> 'a option) \<Rightarrow> string \<Rightarrow> 'a option" where
  "firstAlt [] k s = None"
| "firstAlt (alt # alts) k s =
     (case matchSeq alt k s of Some r \<Rightarrow> Some r | None \<Rightarrow> firstAlt alts k s)"

fun matchAtoms :: "atom list \<Rightarrow> string \<Rightarrow> (string list \<times> string) option" where
  "matchAtoms [] s = Some ([], s)"
| "matchAtoms (Plain a # as) s = matchSeq [a] (matchAtoms as) s"
| "matchAtoms (Group alts # as) s =
     firstAlt alts
       (\<lambda>rest. map_option (\<lambda>(caps, r). (take (length s - length rest) s # caps, r))
                 (matchAtoms as rest)) s"

text \<open>
  The anchor at a position: \<open>prev\<close> is the byte before it (\<open>None\<close> at the start of the
  text), \<open>s\<close> the text from it on.  \<open>searchFrom\<close> tries the positions from left to right.
\<close>

definition anchorOK :: "anchor \<Rightarrow> char option \<Rightarrow> string \<Rightarrow> bool" where
  "anchorOK an prev s =
     (case an of
        Anywhere \<Rightarrow> True
      | TextStart \<Rightarrow> prev = None
      | WordBoundary \<Rightarrow>
          (case prev of None \<Rightarrow> False | Some p \<Rightarrow> isWord p)
            \<noteq> (case s of [] \<Rightarrow> False | c # cs \<Rightarrow> isWord c))"

fun searchFrom :: "regex \<Rightarrow> char option \<Rightarrow> nat \<Rightarrow> string \<Rightarrow> (nat \<times> nat \<times> string list) option" where
  "searchFrom re prev pos [] =
     (case (if anchorOK (fst re) prev [] then matchAtoms (snd re) [] else None) of
        Some (caps, rest) \<Rightarrow> Some (pos, pos, caps)
      | None \<Rightarrow> None)"
| "searchFrom re prev pos (c # cs) =
     (case (if anchorOK (fst re) prev (c # cs) then matchAtoms (snd re) (c # cs) else None) of
        Some (caps, rest) \<Rightarrow> Some (pos, pos + (length (c # cs) - length rest), caps)
      | None \<Rightarrow> searchFrom re (Some c) (Suc pos) cs)"

text \<open>
  \<open>doExecute\<close> from byte offset \<open>pos\<close>: the leftmost match at or after \<open>pos\<close>, with
  its start, its end and the text of its capture groups.
\<close>

definition execute :: "regex \<Rightarrow> string \<Rightarrow> nat \<Rightarrow> (nat \<times> nat \<times> string list) option" where
  "execute re s pos =
     searchFrom re (if pos = 0 then None else Some (s ! (pos - 1))) pos (drop pos s)"

text \<open>\<open>FindStringSubmatch\<close>: the whole match, then the capture groups; Go's nil is \<open>None\<close>.\<close>

definition FindStringSubmatch :: "regex \<Rightarrow> string \<Rightarrow> string list option" where
  "FindStringSubmatch re s =
     map_option (\<lambda>(b, e, caps). take (e - b) (drop b s) # caps) (execute re s 0)"

definition MatchString :: "regex \<Rightarrow> string \<Rightarrow> bool" where
  "MatchString re s = (execute re s 0 \<noteq> None)"

text \<open>
  The loop of \<open>allMatches\<close> (with \<open>n = -1\<close>): after a match the search goes on at its
  end; an empty match is left out when it touches the match before it, and the search
  moves on by one position (one rune in Go, one byte here: no pattern of the repair code
  that is used to find all matches can match the empty text).
\<close>

function allMatches :: "regex \<Rightarrow> string \<Rightarrow> nat \<Rightarrow> nat option \<Rightarrow> (nat \<times> nat) list" where
  "allMatches re s pos prevMatchEnd =
     (if length s < pos then []
      else (case execute re s pos of
              None \<Rightarrow> []
            | Some (b, e, caps) \<Rightarrow>
                if e = pos
                then (if Some b = prevMatchEnd then [] else [(b, e)])
                       @ allMatches re s (Suc pos) (Some e)
                else (b, e) # allMatches re s e (Some e)))"
  by pat_completeness auto
termination
proof -
  have bounds: "searchFrom re prev p t = Some (b, e, caps) \<Longrightarrow> p \<le> b \<and> b \<le> e"
    for re prev p t b e caps
  proof (induction t arbitrary: prev p)
    case Nil
    then show ?case by (auto split: option.splits if_splits)
  next
    case (Cons c cs)
    show ?case
    proof (cases "if anchorOK (fst re) prev (c # cs) then matchAtoms (snd re) (c # cs) else None")
      case None
      with Cons.prems have "searchFrom re (Some c) (Suc p) cs = Some (b, e, caps)"
        by simp
      from Cons.IH [OF this] show ?thesis by simp
    next
      case (Some r)
      with Cons.prems show ?thesis by (cases r) auto
    qed
  qed
  show ?thesis
    by (relation "measure (\<lambda>(re, s, pos, prevMatchEnd). Suc (length s) - pos)")
      (auto simp: execute_def dest!: bounds)
qed

declare allMatches.simps [simp del]

definition FindAllStringIndex :: "regex \<Rightarrow> string \<Rightarrow> (nat \<times> nat) list" where
  "FindAllStringIndex re s = allMatches re s 0 None"

definition FindAllString :: "regex \<Rightarrow> string \<Rightarrow> string list" where
  "FindAllString re s = map (\<lambda>(b, e). take (e - b) (drop b s)) (FindAllStringIndex re s)"

subsection \<open>The patterns of the repair code\<close>

text \<open>
  \<open>regexp.QuoteMeta(varName)\<close> inside a pattern stands for the literal text of
  \<open>varName\<close>.  The names that reach a pattern are ASCII words: the repair code takes
  them from a capture of \<open>\w+\<close> or of \<open>[a-zA-Z_][a-zA-Z0-9_]*\<close>.  (For a name that is
  not UTF-8 text \<open>regexp.MustCompile\<close> would not accept the pattern.)  The classes
  \<open>\s\<close>, \<open>\w\<close> and the boundary \<open>\b\<close> are the ASCII ones of Go's syntax; a negated
  class such as \<open>[^;]\<close> stops at an ASCII byte, so matching bytes and matching runes give
  the same offsets.
\<close>

definition typeAlts6 :: "satom list list" where
  "typeAlts6 = [[Lit ''vec'', One (CSet ''234'')], [Lit ''float''], [Lit ''int''], [Lit ''bool'']]"

definition typeAlts7 :: "satom list list" where
  "typeAlts7 = [[Lit ''vec'', One (CSet ''234'')], [Lit ''float''], [Lit ''int''], [Lit ''bool''],
                [Lit ''mat'', One (CSet ''234'')]]"

abbreviation spaces0 :: atom where "spaces0 \<equiv> Plain (Rep CSpace 0 None)"
abbreviation spaces1 :: atom where "spaces1 \<equiv> Plain (Rep CSpace 1 None)"
abbreviation word1 :: satom where "word1 \<equiv> Rep CWord 1 None"

text \<open>\<^verbatim>\<open>\b(vec[234]|float|int|bool)\s+\w+\s*=\<close> in \<open>determineVariableType\<close>\<close>

definition chainTypePattern :: regex where
  "chainTypePattern =
     (WordBoundary, [Group typeAlts6, spaces1, Plain word1, spaces0, Plain (Lit ''='')])"

text \<open>\<^verbatim>\<open>QuoteMeta(varName) + \.([xyzw]{2,4})\<close>\<close>

definition swizzlePattern :: "string \<Rightarrow> regex" where
  "swizzlePattern varName =
     (Anywhere, [Plain (Lit varName), Plain (Lit ''.''), Group [[Rep (CSet ''xyzw'') 2 (Some 4)]]])"

text \<open>\<^verbatim>\<open>^\s*([a-zA-Z_][a-zA-Z0-9_]*)\s*=\s*([^;]+);\<close>\<close>

definition orphanedPattern :: regex where
  "orphanedPattern =
     (TextStart, [spaces0, Group [[One CAlpha, Rep CWord 0 None]], spaces0, Plain (Lit ''=''),
                  spaces0, Group [[Rep (CNot '';'') 1 None]], Plain (Lit '';'')])"

text \<open>\<^verbatim>\<open>^\s*(vec[234]|float|int|bool|mat[234])\s+\<close>\<close>

definition typePattern :: regex where
  "typePattern = (TextStart, [spaces0, Group typeAlts7, spaces1])"

text \<open>\<^verbatim>\<open>\b(out|in|inout)\s+(vec[234]|float|int|bool|mat[234])\s+NAME\s*[,)]\<close>\<close>

definition paramPattern :: "string \<Rightarrow> regex" where
  "paramPattern varName =
     (WordBoundary, [Group [[Lit ''out''], [Lit ''in''], [Lit ''inout'']], spaces1,
                     Group typeAlts7, spaces1, Plain (Lit varName), spaces0,
                     Plain (One (CSet '',)''))])"

text \<open>\<^verbatim>\<open>\b(vec[234]|float|int|bool|mat[234])\s+NAME\s*[=;]\<close>\<close>

definition declPattern7 :: "string \<Rightarrow> regex" where
  "declPattern7 varName =
     (WordBoundary, [Group typeAlts7, spaces1, Plain (Lit varName), spaces0,
                     Plain (One (CSet ''=;''))])"

text \<open>\<^verbatim>\<open>\b(vec[234]|float|int|bool)\s+NAME\s*[=;]\<close>\<close>

definition declPattern :: "string \<Rightarrow> regex" where
  "declPattern varName =
     (WordBoundary, [Group typeAlts6, spaces1, Plain (Lit varName), spaces0,
                     Plain (One (CSet ''=;''))])"

text \<open>\<^verbatim>\<open>\b([a-zA-Z_][a-zA-Z0-9_]*)\<close>\<close>

definition varRefPattern :: regex where
  "varRefPattern = (WordBoundary, [Group [[One CAlpha, Rep CWord 0 None]]])"

text \<open>\<^verbatim>\<open>,\s+(\w+)\s*;\<close>\<close>

definition chainVarPattern :: regex where
  "chainVarPattern =
     (Anywhere, [Plain (Lit '',''), spaces1, Group [[word1]], spaces0, Plain (Lit '';'')])"

text \<open>\<^verbatim>\<open>^\s*(\w+)\s*;\<close>\<close>

definition standaloneVarPattern :: regex where
  "standaloneVarPattern = (TextStart, [spaces0, Group [[word1]], spaces0, Plain (Lit '';'')])"

text \<open>\<^verbatim>\<open>\b(vec[234]|float|int|bool)\s+\w+\<close>\<close>

definition typeDeclPattern :: regex where
  "typeDeclPattern = (WordBoundary, [Group typeAlts6, spaces1, Plain word1])"

text \<open>\<^verbatim>\<open>\b(vec[234]|float|int|bool)\s+(\w+)\s*;\<close>\<close>

definition uninitDeclPattern :: regex where
  "uninitDeclPattern =
     (WordBoundary, [Group typeAlts6, spaces1, Group [[word1]], spaces0, Plain (Lit '';'')])"

text \<open>\<^verbatim>\<open>^\s*(\w+)\s*=\s*([^;]+);\<close>\<close>

definition assignPattern :: regex where
  "assignPattern =
     (TextStart, [spaces0, Group [[word1]], spaces0, Plain (Lit ''=''), spaces0,
                  Group [[Rep (CNot '';'') 1 None]], Plain (Lit '';'')])"

text \<open>\<^verbatim>\<open>for\s*\([^)]*\)\<close>\<close>

definition loopPattern :: regex where
  "loopPattern =
     (Anywhere, [Plain (Lit ''for''), spaces0, Plain (Lit ''(''),
                 Plain (Rep (CNot '')'') 0 None), Plain (Lit '')'')])"

section \<open>The variable-type inferencer\<close>

text \<open>The \<open>switch\<close> on a type name that the code repeats; no case matches other names.\<close>

definition zeroValue :: "string \<Rightarrow> string option" where
  "zeroValue varType =
     (if varType = ''vec2'' then Some ''vec2(0.0)''
      else if varType = ''vec3'' then Some ''vec3(0.0)''
      else if varType = ''vec4'' then Some ''vec4(0.0)''
      else if varType = ''float'' then Some ''0.0''
      else if varType = ''int'' then Some ''0''
      else if varType = ''bool'' then Some ''false''
      else None)"

text \<open>Go's \<open>int\<close> is a 64-bit two's complement number: arithmetic wraps around.\<close>

definition wrap64 :: "int \<Rightarrow> int" where
  "wrap64 x = (x + 2 ^ 63) mod 2 ^ 64 - 2 ^ 63"

text \<open>
  The backward loop of \<open>determineVariableType\<close> from index \<open>j\<close>.  \<open>Inl\<close> is the
  panic of \<open>lines[j]\<close> out of range, \<open>Inr (Some v)\<close> a \<open>return v\<close> inside the loop,
  \<open>Inr None\<close> the end of the loop (by its condition or by \<open>break\<close>).
\<close>

function chainWalk :: "string list \<Rightarrow> int \<Rightarrow> int \<Rightarrow> panic + string option" where
  "chainWalk lines lineIndex j =
     (if 0 \<le> j \<and> wrap64 (lineIndex - 20) \<le> j then
        (if int (length lines) \<le> j then Inl IndexOutOfRange
         else
           (let prevLine = TrimSpace (lines ! nat j) in
            if prevLine = [] then chainWalk lines lineIndex (j - 1)
            else if \<not> HasSuffix prevLine '','' then
              (case FindStringSubmatch chainTypePattern prevLine of
                 Some matches \<Rightarrow>
                   (case zeroValue (matches ! 1) of
                      Some v \<Rightarrow> Inr (Some v)
                    | None \<Rightarrow> Inr None)
               | None \<Rightarrow> Inr None)
            else
              (case FindStringSubmatch chainTypePattern prevLine of
                 Some matches \<Rightarrow>
                   (case zeroValue (matches ! 1) of
                      Some v \<Rightarrow> Inr (Some v)
                    | None \<Rightarrow> chainWalk lines lineIndex (j - 1))
               | None \<Rightarrow> chainWalk lines lineIndex (j - 1))))
      else Inr None)"
  by pat_completeness auto
termination
  by (relation "measure (\<lambda>(lines, lineIndex, j). nat (j + 1))") auto

declare chainWalk.simps [simp del]

definition determineVariableType :: "string \<Rightarrow> string \<Rightarrow> string list \<Rightarrow> int \<Rightarrow> panic + string" where
  "determineVariableType varName code lines lineIndex =
     (case chainWalk lines lineIndex (wrap64 (lineIndex - 1)) of
        Inl p \<Rightarrow> Inl p
      | Inr (Some v) \<Rightarrow> Inr v
      | Inr None \<Rightarrow>
          (let varNameDot = varName @ ''.'' in
           if Contains code (varNameDot @ ''w'') \<or> Contains code (varName @ ''.w'')
             then Inr ''vec4(0.0)''
           else if Contains code (varNameDot @ ''z'') \<or> Contains code (varName @ ''.z'')
             then Inr ''vec4(0.0)''
           else if FindAllString (swizzlePattern varName) code \<noteq> [] then
             (if Contains code (varName @ '' +='') \<or> Contains code (varName @ '' ='')
              then Inr ''vec2(0.0)'' else Inr ''vec2(0.0)'')
           else if Contains code (varNameDot @ ''x'') \<or> Contains code (varNameDot @ ''y'') \<or>
                   Contains code (varName @ ''.x'') \<or> Contains code (varName @ ''.y'') then
             (if Contains code (varName @ '' +='') \<or> Contains code (varName @ '' ='')
              then Inr ''vec2(0.0)'' else Inr ''vec2(0.0)'')
           else if Contains code (varName @ '' +='') \<or> Contains code (varName @ '' ='') \<or>
                   Contains code (varName @ '' -='') \<or> Contains code (varName @ '' *='') \<or>
                   Contains code (varName @ '' /='')
             then Inr ''vec2(0.0)''
           else if Contains code (varName @ '' '') \<or> Contains code (varName @ ''('') \<or>
                   Contains code (varName @ '')'') \<or> Contains code (''('' @ varName)
             then Inr ''vec2(0.0)''
           else Inr ''vec2(0.0)''))"

section \<open>Scopes\<close>

text \<open>The test for a function definition that \<open>findFunctionScope\<close> and the fixer share.\<close>

definition looksLikeFunction :: "string \<Rightarrow> bool" where
  "looksLikeFunction line =
     (Contains line ''void '' \<or>
      (Contains line ''float '' \<and> Contains line ''('') \<or>
      (Contains line ''vec'' \<and> Contains line ''(''))"

text \<open>
  The backward loop of \<open>findFunctionScope\<close> from index \<open>i\<close>; Go's start line \<open>-1\<close>
  is \<open>None\<close>.
\<close>

fun scopeLoop :: "string list \<Rightarrow> nat \<Rightarrow> nat option \<times> bool" where
  "scopeLoop lines 0 =
     (let line = TrimSpace (lines ! 0) in
      if looksLikeFunction line then (Some 0, Contains line ''mainImage'') else (None, False))"
| "scopeLoop lines (Suc i) =
     (let line = TrimSpace (lines ! Suc i) in
      if looksLikeFunction line then (Some (Suc i), Contains line ''mainImage'')
      else scopeLoop lines i)"

definition findFunctionScope :: "string list \<Rightarrow> nat \<Rightarrow> panic + (nat option \<times> bool)" where
  "findFunctionScope lines lineIndex =
     (if length lines \<le> lineIndex then Inl IndexOutOfRange
      else Inr (scopeLoop lines lineIndex))"

text \<open>A \<open>for j := 0; j < len(xs); j++\<close> loop that stops at the first hit.\<close>

fun findIndex :: "('a \<Rightarrow> bool) \<Rightarrow> 'a list \<Rightarrow> nat option" where
  "findIndex P [] = None"
| "findIndex P (x # xs) = (if P x then Some 0 else map_option Suc (findIndex P xs))"

text \<open>
  The block the fixer repeats: find the first line that mentions \<open>mainImage\<close> and look
  for a declaration of the variable from that line on.
\<close>

definition declaredInMainImage :: "string list \<Rightarrow> string \<Rightarrow> bool" where
  "declaredInMainImage lines varName =
     (case findIndex (\<lambda>l. Contains (TrimSpace l) ''mainImage'') lines of
        None \<Rightarrow> False
      | Some mainImageStart \<Rightarrow>
          MatchString (declPattern varName) (Join (drop mainImageStart lines)))"

definition isKeyword :: "string \<Rightarrow> bool" where
  "isKeyword varName =
     (varName = ''if'' \<or> varName = ''for'' \<or> varName = ''while'' \<or> varName = ''return'')"

text \<open>The leading blanks and tabs of a line, copied byte by byte.\<close>

definition indentOf :: "string \<Rightarrow> string" where
  "indentOf line = takeWhile (\<lambda>c. c = CHR 0x20 \<or> c = TAB) line"

section \<open>The uninitialized-variable fixer\<close>

text \<open>
  The repair-state map \<open>uninitializedVars\<close> is an association list with at most one
  entry for a name.  Go ranges over a map in an order of its own choosing: the order is
  the parameter \<open>order\<close> of the loop pass.
\<close>

type_synonym varmap = "(string \<times> string) list"

definition mapPut :: "string \<Rightarrow> string \<Rightarrow> varmap \<Rightarrow> varmap" where
  "mapPut k v m =
     (if map_of m k = None then m @ [(k, v)]
      else map (\<lambda>(k', v'). if k' = k then (k', v) else (k', v')) m)"

text \<open>A \<open>for i := range lines\<close> loop whose body may panic.\<close>

fun forLines :: "(nat \<Rightarrow> 's \<Rightarrow> panic + 's) \<Rightarrow> nat list \<Rightarrow> 's \<Rightarrow> panic + 's" where
  "forLines body [] st = Inr st"
| "forLines body (i # is) st =
     (case body i st of Inl p \<Rightarrow> Inl p | Inr st' \<Rightarrow> forLines body is st')"

text \<open>The nine substring tests for "the variable is used".\<close>

definition varIsUsed :: "string \<Rightarrow> string \<Rightarrow> bool" where
  "varIsUsed code varName =
     (Contains code (varName @ '' '') \<or> Contains code (varName @ ''.'') \<or>
      Contains code (varName @ ''+'') \<or> Contains code (varName @ ''-'') \<or>
      Contains code (varName @ ''*'') \<or> Contains code (varName @ ''/'') \<or>
      Contains code (varName @ ''='') \<or> Contains code (''('' @ varName) \<or>
      Contains code (varName @ '')''))"

text \<open>Pattern 1: \<open>, varName;\<close> in a declaration chain on one line.\<close>

definition fixChainVar ::
  "string \<Rightarrow> nat \<Rightarrow> string list \<Rightarrow> string list \<times> varmap \<Rightarrow> panic + (string list \<times> varmap)" where
  "fixChainVar code i matches st =
     (case st of (lines, vars) \<Rightarrow>
        let line = lines ! i; varName = matches ! 1 in
        if Contains line (varName @ '' ='') then Inr st
        else
          let varType0 =
                (case FindStringSubmatch typeDeclPattern line of
                   Some typeMatch \<Rightarrow>
                     (case zeroValue (typeMatch ! 1) of Some v \<Rightarrow> v | None \<Rightarrow> [])
                 | None \<Rightarrow> [])
          in (case (if varType0 = [] then determineVariableType varName code lines (int i)
                    else Inr varType0) of
                Inl p \<Rightarrow> Inl p
              | Inr varType \<Rightarrow>
                  Inr (lines[i := Replace1 line ('', '' @ varName @ '';'')
                                      ('', '' @ varName @ '' = '' @ varType @ '';'')],
                       mapPut varName varType vars)))"

text \<open>Pattern 2: \<open>varName;\<close> on a line of its own.\<close>

definition fixStandaloneVar ::
  "string \<Rightarrow> nat \<Rightarrow> string list \<Rightarrow> string list \<times> varmap \<Rightarrow> panic + (string list \<times> varmap)" where
  "fixStandaloneVar code i matches st =
     (case st of (lines, vars) \<Rightarrow>
        let line = lines ! i; varName = matches ! 1 in
        if isKeyword varName \<or> Contains line (varName @ '' ='') then Inr st
        else
          (case findFunctionScope lines i of
             Inl p \<Rightarrow> Inl p
           | Inr (funcStart, isMainImage) \<Rightarrow>
               if \<not> isMainImage \<and> funcStart \<noteq> None \<and> declaredInMainImage lines varName
               then Inr st
               else
                 let varIsDeclaredElsewhere =
                       (declaredInMainImage lines varName \<or>
                        (case findIndex (\<lambda>l. looksLikeFunction (TrimSpace l)) (take i lines) of
                           None \<Rightarrow> False
                         | Some firstFuncLine \<Rightarrow>
                             MatchString (declPattern varName) (Join (take firstFuncLine lines))))
                 in if varIsDeclaredElsewhere then Inr st
                    else if varIsUsed code varName then
                      (case determineVariableType varName code lines (int i) of
                         Inl p \<Rightarrow> Inl p
                       | Inr varType \<Rightarrow>
                           Inr (lines[i := indentOf line @ varName @ '' = '' @ varType @ '';''],
                                mapPut varName varType vars))
                    else Inr st))"

text \<open>Pattern 3: \<open>type varName;\<close> without an initializer, matched on the trimmed line.\<close>

definition fixUninitDecl ::
  "nat \<Rightarrow> string list \<Rightarrow> string list \<times> varmap \<Rightarrow> panic + (string list \<times> varmap)" where
  "fixUninitDecl i matches st =
     (case st of (lines, vars) \<Rightarrow>
        let trimmed = TrimSpace (lines ! i); varType = matches ! 1; varName = matches ! 2 in
        if Contains trimmed (varName @ '' ='') then Inr st
        else
          (case findFunctionScope lines i of
             Inl p \<Rightarrow> Inl p
           | Inr (funcStart, isMainImage) \<Rightarrow>
               if \<not> isMainImage \<and>
                  (case funcStart of
                     None \<Rightarrow> False
                   | Some fs \<Rightarrow>
                       declaredInMainImage lines varName \<or>
                       MatchString (declPattern varName) (Join (take fs lines)))
               then Inr st
               else
                 let remainingCode = Join (drop (i + 1) lines) in
                 if varIsUsed remainingCode varName then
                   (let defaultValue = (case zeroValue varType of Some v \<Rightarrow> v | None \<Rightarrow> ''0.0'')
                    in Inr (lines[i := Replace1 trimmed (varName @ '';'')
                                          (varName @ '' = '' @ defaultValue @ '';'')],
                            mapPut varName defaultValue vars))
                 else Inr st))"

text \<open>The body of the first loop over the lines.\<close>

definition firstPassLine ::
  "string \<Rightarrow> nat \<Rightarrow> string list \<times> varmap \<Rightarrow> panic + (string list \<times> varmap)" where
  "firstPassLine code i st =
     (let line = fst st ! i; trimmed = TrimSpace line in
      if trimmed = [] then Inr st
      else
        (case FindStringSubmatch chainVarPattern line of
           Some matches \<Rightarrow> fixChainVar code i matches st
         | None \<Rightarrow>
             (case FindStringSubmatch standaloneVarPattern line of
                Some matches \<Rightarrow> fixStandaloneVar code i matches st
              | None \<Rightarrow>
                  (case FindStringSubmatch uninitDeclPattern trimmed of
                     Some matches \<Rightarrow> fixUninitDecl i matches st
                   | None \<Rightarrow> Inr st))))"

text \<open>The "additional pass": assignments to a name with no declaration before them.\<close>

definition typeOfValue :: "string \<Rightarrow> string" where
  "typeOfValue assignValue =
     (if Contains assignValue ''vec2('' then ''vec2''
      else if Contains assignValue ''vec3('' then ''vec3''
      else if Contains assignValue ''vec4('' then ''vec4''
      else if Contains assignValue ''.'' \<and> \<not> Contains assignValue ''('' then ''float''
      else ''float'')"

definition cleanupLine :: "nat \<Rightarrow> string list \<Rightarrow> panic + string list" where
  "cleanupLine i lines =
     (let line = lines ! i; trimmed = TrimSpace line in
      if trimmed = [] then Inr lines
      else
        (case FindStringSubmatch assignPattern line of
           None \<Rightarrow> Inr lines
         | Some matches \<Rightarrow>
             let varName = matches ! 1 in
             if isKeyword varName then Inr lines
             else if MatchString (declPattern varName) (Join (take i lines)) then Inr lines
             else
               (case findFunctionScope lines i of
                  Inl p \<Rightarrow> Inl p
                | Inr (funcStart, isMainImage) \<Rightarrow>
                    if \<not> isMainImage \<and> funcStart \<noteq> None then
                      (if declaredInMainImage lines varName then Inr (lines[i := []])
                       else
                         let assignValue = matches ! 2; varType = typeOfValue assignValue in
                         Inr (lines[i := indentOf line @ varType @ '' '' @ varName @ '' = ''
                                          @ assignValue @ '';'']))
                    else Inr lines)))"

text \<open>The "second pass" over stand-alone names; it tests seven of the nine uses.\<close>

definition varIsUsed7 :: "string \<Rightarrow> string \<Rightarrow> bool" where
  "varIsUsed7 code varName =
     (Contains code (varName @ '' '') \<or> Contains code (varName @ ''.'') \<or>
      Contains code (varName @ ''+'') \<or> Contains code (varName @ ''-'') \<or>
      Contains code (varName @ ''*'') \<or> Contains code (varName @ ''/'') \<or>
      Contains code (varName @ ''=''))"

definition secondPassLine ::
  "string \<Rightarrow> nat \<Rightarrow> string list \<times> varmap \<Rightarrow> panic + (string list \<times> varmap)" where
  "secondPassLine code i st =
     (case st of (lines, vars) \<Rightarrow>
        let line = lines ! i; trimmed = TrimSpace line in
        if trimmed = [] then Inr st
        else
          (case FindStringSubmatch standaloneVarPattern line of
             None \<Rightarrow> Inr st
           | Some standaloneMatch \<Rightarrow>
               let varName = standaloneMatch ! 1 in
               if Contains line (varName @ '' ='') \<or> isKeyword varName then Inr st
               else if varIsUsed7 code varName \<and> map_of vars varName = None \<and>
                       \<not> Contains code (varName @ '' ='') \<and> \<not> Contains code (varName @ ''='')
               then
                 (case determineVariableType varName code lines (int i) of
                    Inl p \<Rightarrow> Inl p
                  | Inr varType \<Rightarrow>
                      Inr (lines[i := indentOf line @ varName @ '' = '' @ varType @ '';''],
                           mapPut varName varType vars))
               else Inr st))"

section \<open>The orphaned-assignment remover\<close>

definition builtinNames :: "string list" where
  "builtinNames =
     [''vec2'', ''vec3'', ''vec4'', ''sin'', ''cos'', ''abs'', ''fract'', ''clamp'', ''pow'', ''mix'',
      ''smoothstep'', ''exp2'', ''normalize'', ''dot'', ''length'', ''floor'', ''step'', ''iTime'',
      ''iResolution'', ''gl_FragCoord'', ''x'', ''y'', ''z'', ''w'', ''r'', ''g'', ''b'', ''a'', ''xy'',
      ''zx'', ''rgb'', ''xyyx'', ''time'', ''spd'', ''mm2'', ''tri2'', ''tri'', ''m2'', ''bp'', ''p'']"

text \<open>Whether the loop body reaches \<open>continue\<close> with \<open>isOrphaned\<close> set for line \<open>i\<close>.\<close>

definition isOrphanedLine :: "string list \<Rightarrow> nat \<Rightarrow> bool" where
  "isOrphanedLine lines i =
     (let line = lines ! i in
      case FindStringSubmatch orphanedPattern line of
        None \<Rightarrow> False
      | Some matches \<Rightarrow>
          let varName = matches ! 1; expression = matches ! 2 in
          if MatchString typePattern line then False
          else if isKeyword varName then False
          else
            let beforeCode = Join (take i lines) in
            if MatchString (paramPattern varName) beforeCode then False
            else if MatchString (declPattern7 varName) beforeCode then False
            else
              list_ex
                (\<lambda>ref. \<not> (ref \<in> set builtinNames \<or> ref = varName) \<and>
                        \<not> MatchString (declPattern7 ref) beforeCode \<and>
                        \<not> MatchString (paramPattern ref) beforeCode)
                (FindAllString varRefPattern expression))"

definition removeOrphanedAssignments :: "string \<Rightarrow> string" where
  "removeOrphanedAssignments code =
     (let lines = Split code in
      Join (map (\<lambda>i. lines ! i)
             (filter (\<lambda>i. \<not> isOrphanedLine lines i) [0 ..< length lines])))"

section \<open>The duplicate-output-declaration fixer\<close>

text \<open>
  The loop that looks for the end of \<open>mainImage\<close>: \<open>i\<close> is the index of the first line
  of the list, \<open>n\<close> is \<open>len(lines)\<close>.
\<close>

fun mainImageEndLoop :: "nat \<Rightarrow> nat \<Rightarrow> int \<Rightarrow> nat \<Rightarrow> string list \<Rightarrow> nat" where
  "mainImageEndLoop mainImageStart n braceCount i [] = n"
| "mainImageEndLoop mainImageStart n braceCount i (line # rest) =
     (let braceCount' = braceCount + (int (Count line (CHR ''{'')) - int (Count line (CHR ''}'')))
      in if braceCount' = 0 \<and> mainImageStart < i then i + 1
         else mainImageEndLoop mainImageStart n braceCount' (i + 1) rest)"

definition fixFragColorLine :: "string \<Rightarrow> string" where
  "fixFragColorLine line =
     (let trimmed = TrimSpace line in
      if Contains trimmed ''vec4 fragColor ='' \<or> Contains trimmed ''vec4 fragColor='' then
        (case strings_Index trimmed ''fragColor'' of
           Some idx \<Rightarrow>
             replicate (length line - length (TrimLeftBlank line)) (CHR 0x20) @ drop idx trimmed
         | None \<Rightarrow> line)
      else line)"

definition fixMainImageFragColor :: "string \<Rightarrow> string" where
  "fixMainImageFragColor code =
     (let lines = Split code in
      case findIndex (\<lambda>line. Contains (TrimSpace line) ''void mainImage'') lines of
        None \<Rightarrow> code
      | Some mainImageStart \<Rightarrow>
          let mainImageEnd =
                mainImageEndLoop mainImageStart (length lines) 0 mainImageStart
                  (drop mainImageStart lines)
          in Join (map (\<lambda>i. if mainImageStart \<le> i \<and> i < mainImageEnd
                             then fixFragColorLine (lines ! i) else lines ! i)
                     [0 ..< length lines]))"

section \<open>The loop-preinitialization pass\<close>

text \<open>The eight substring tests for "the variable is used in the loop body".\<close>

definition usedInLoop :: "string \<Rightarrow> string \<Rightarrow> bool" where
  "usedInLoop loopBodyCode varName =
     (Contains loopBodyCode (varName @ '' '') \<or> Contains loopBodyCode (varName @ ''.'') \<or>
      Contains loopBodyCode (varName @ ''+'') \<or> Contains loopBodyCode (varName @ ''-'') \<or>
      Contains loopBodyCode (varName @ ''*'') \<or> Contains loopBodyCode (varName @ ''/'') \<or>
      Contains loopBodyCode (varName @ ''='') \<or> Contains loopBodyCode (''('' @ varName))"

text \<open>The inner loop over the map, for one loop of the text.\<close>

fun preinitVars :: "nat \<Rightarrow> string \<Rightarrow> string \<Rightarrow> varmap \<Rightarrow> string \<Rightarrow> string" where
  "preinitVars loopStart beforeLoop loopBodyCode [] code = code"
| "preinitVars loopStart beforeLoop loopBodyCode ((varName, defaultValue) # rest) code =
     preinitVars loopStart beforeLoop loopBodyCode rest
       (if usedInLoop loopBodyCode varName \<and>
           \<not> Contains beforeLoop (varName @ '' ='') \<and> \<not> Contains beforeLoop (varName @ ''='')
        then take loopStart code @ ''    '' @ varName @ '' = '' @ defaultValue @ '';'' @ [NL]
               @ drop loopStart code
        else code)"

definition preinitLoop :: "varmap \<Rightarrow> nat \<times> nat \<Rightarrow> string \<Rightarrow> string" where
  "preinitLoop vars m code =
     (case m of (loopStart, loopEnd) \<Rightarrow>
        let beforeLoop = take loopStart code; loopBody = drop loopEnd code in
        (case strings_Index loopBody ''{'' of
           None \<Rightarrow> code
         | Some braceIdx \<Rightarrow>
             (let loopBodyStart = loopEnd + braceIdx; loopBodyCode = drop loopBodyStart code
              in preinitVars loopStart beforeLoop loopBodyCode vars code)))"

text \<open>
  The pass itself.  The loops are taken last one first; \<open>order idx\<close> is the order in
  which Go ranges over the map while it handles the loop number \<open>idx\<close>.
\<close>

definition loopPreinit :: "(nat \<Rightarrow> varmap \<Rightarrow> varmap) \<Rightarrow> varmap \<Rightarrow> string \<Rightarrow> string" where
  "loopPreinit order uninitializedVars code =
     (if Contains code ''for('' then
        (let loopMatches = FindAllStringIndex loopPattern code in
         foldl (\<lambda>code idx. preinitLoop (order idx uninitializedVars) (loopMatches ! idx) code)
           code (rev [0 ..< length loopMatches]))
      else code)"

section \<open>The repair pipeline\<close>

text \<open>
  \<open>fixShaderCode\<close> up to and including the call of \<open>fixMainImageFragColor\<close>: the
  repaired text and the repair-state map that the loop pass receives.
\<close>

definition repairBeforeLoops :: "string \<Rightarrow> panic + (string \<times> varmap)" where
  "repairBeforeLoops code0 =
     (let code = removeComments code0; lines = Split code in
      (case forLines (firstPassLine code) [0 ..< length lines] (lines, []) of
         Inl p \<Rightarrow> Inl p
       | Inr (lines1, vars1) \<Rightarrow>
           (let lines2 = Split (Join lines1) in
            (case forLines cleanupLine [0 ..< length lines2] lines2 of
               Inl p \<Rightarrow> Inl p
             | Inr lines3 \<Rightarrow>
                 (let lines4 = Split (Join lines3);
                      code3 = Join (filter (\<lambda>line. TrimSpace line \<noteq> []) lines4);
                      lines5 = Split code3
                  in (case forLines (secondPassLine code3) [0 ..< length lines5] (lines5, vars1) of
                        Inl p \<Rightarrow> Inl p
                      | Inr (lines6, vars2) \<Rightarrow>
                          Inr (fixMainImageFragColor (removeOrphanedAssignments (Join lines6)),
                               vars2)))))))"

definition fixShaderCode :: "(nat \<Rightarrow> varmap \<Rightarrow> varmap) \<Rightarrow> string \<Rightarrow> panic + string" where
  "fixShaderCode order code0 =
     (case repairBeforeLoops code0 of
        Inl p \<Rightarrow> Inl p
      | Inr (code, uninitializedVars) \<Rightarrow> Inr (loopPreinit order uninitializedVars code))"

text \<open>The six zero-value initializers.\<close>

definition zeroValues :: "string list" where
  "zeroValues = [''vec2(0.0)'', ''vec3(0.0)'', ''vec4(0.0)'', ''0.0'', ''0'', ''false'']"

section \<open>Notions used to state the properties\<close>

text \<open>A byte of ASCII text that is not white space.\<close>

definition asciiText :: "char \<Rightarrow> bool" where
  "asciiText c = ((of_char c :: nat) < 0x80 \<and> \<not> asciiSpace c)"

text \<open>An admissible order for ranging over the map: a permutation of its entries.\<close>

definition isRangeOrder :: "(nat \<Rightarrow> varmap \<Rightarrow> varmap) \<Rightarrow> bool" where
  "isRangeOrder order = (\<forall>idx m. mset (order idx m) = mset m)"






section \<open>Facts about the string functions\<close>

lemma HasPrefix_iff: "HasPrefix s p \<longleftrightarrow> (\<exists>t. s = p @ t)"
  by (induction s p rule: HasPrefix.induct) auto

lemma HasPrefix_append: "HasPrefix (p @ t) p"
  by (simp add: HasPrefix_iff)

lemma HasPrefix_drop: "HasPrefix s p \<Longrightarrow> p @ drop (length p) s = s"
  by (auto simp: HasPrefix_iff)

lemma Contains_iff: "Contains s sub \<longleftrightarrow> (\<exists>u v. s = u @ sub @ v)"
proof (induction s)
  case Nil
  then show ?case by auto
next
  case (Cons c cs)
  show ?case
  proof
    assume "Contains (c # cs) sub"
    then consider "HasPrefix (c # cs) sub" | "Contains cs sub" by auto
    then show "\<exists>u v. c # cs = u @ sub @ v"
    proof cases
      case 1
      then obtain t where "c # cs = sub @ t" by (auto simp: HasPrefix_iff)
      then have "c # cs = [] @ sub @ t" by simp
      then show ?thesis by blast
    next
      case 2
      with Cons.IH obtain u v where "cs = u @ sub @ v" by blast
      then have "c # cs = (c # u) @ sub @ v" by simp
      then show ?thesis by blast
    qed
  next
    assume "\<exists>u v. c # cs = u @ sub @ v"
    then obtain u v where uv: "c # cs = u @ sub @ v" by blast
    show "Contains (c # cs) sub"
    proof (cases u)
      case Nil
      with uv have "HasPrefix (c # cs) sub" by (simp add: HasPrefix_iff)
      then show ?thesis by simp
    next
      case (Cons d u')
      with uv have "cs = u' @ sub @ v" by simp
      with Cons.IH have "Contains cs sub" by blast
      then show ?thesis by simp
    qed
  qed
qed

lemma takeWhile_upto: "c \<notin> set xs \<Longrightarrow> takeWhile (\<lambda>d. d \<noteq> c) (xs @ c # ys) = xs"
  by (induction xs) auto

text \<open>The first occurrence of a text that ends a string whose earlier part has no \<open>;\<close>.\<close>

lemma no_earlier_occurrence:
  assumes "CHR '';'' \<notin> set pre" "CHR '';'' \<notin> set m" "pre \<noteq> []"
  shows "\<not> HasPrefix (pre @ m @ '';'') (m @ '';'')"
proof
  assume "HasPrefix (pre @ m @ '';'') (m @ '';'')"
  then obtain t where t: "pre @ m @ '';'' = (m @ '';'') @ t"
    by (auto simp: HasPrefix_iff)
  let ?P = "\<lambda>c. c \<noteq> CHR '';''"
  from assms have "takeWhile ?P ((pre @ m) @ CHR '';'' # []) = pre @ m"
    by (intro takeWhile_upto) simp
  moreover from assms have "takeWhile ?P (m @ CHR '';'' # t) = m"
    by (intro takeWhile_upto) simp
  ultimately have "pre @ m = m" using t by simp
  with assms(3) show False by simp
qed

lemma strings_Index_last:
  assumes "CHR '';'' \<notin> set pre" "CHR '';'' \<notin> set m"
  shows "strings_Index (pre @ m @ '';'') (m @ '';'') = Some (length pre)"
  using assms(1)
proof (induction pre)
  case Nil
  have "HasPrefix (m @ '';'') (m @ '';'')" by (simp add: HasPrefix_iff)
  then show ?case by (cases "m @ '';''") auto
next
  case (Cons c pre)
  then have "\<not> HasPrefix ((c # pre) @ m @ '';'') (m @ '';'')"
    by (intro no_earlier_occurrence assms) auto
  with Cons show ?case by simp
qed

lemma Replace1_last:
  assumes "CHR '';'' \<notin> set pre" "CHR '';'' \<notin> set m"
  shows "Replace1 (pre @ m @ '';'') (m @ '';'') new = pre @ new"
  using strings_Index_last [OF assms] by (simp add: Replace1_def)

section \<open>TrimSpace on a line with ASCII text at both ends\<close>

lemma leadingSpace_text: "asciiText c \<Longrightarrow> leadingSpace (c # r) = 0"
proof -
  assume a: "asciiText c"
  then have "c \<noteq> CHR 0xC2" "c \<noteq> CHR 0xE1" "c \<noteq> CHR 0xE2" "c \<noteq> CHR 0xE3"
    by (auto simp: asciiText_def)
  with a show ?thesis
    by (cases "c # r" rule: leadingSpace.cases)
       (auto simp: asciiText_def space2_def space3_def)
qed

lemma trailingSpace_text: "asciiText c \<Longrightarrow> trailingSpace (c # r) = 0"
proof -
  assume a: "asciiText c"
  then have "c \<noteq> CHR 0x85" "c \<noteq> CHR 0xA0" "c \<noteq> CHR 0x80" "c \<noteq> CHR 0x9F"
    "c \<noteq> CHR 0xA8" "c \<noteq> CHR 0xA9" "c \<noteq> CHR 0xAF" "\<not> (0x80 \<le> (of_char c :: nat))"
    by (auto simp: asciiText_def)
  with a show ?thesis
    by (cases "c # r" rule: trailingSpace.cases)
       (auto simp: asciiText_def space2_def space3_def)
qed

lemma TrimSpace_text:
  assumes "asciiText c" "asciiText d"
  shows "TrimSpace (c # m @ [d]) = c # m @ [d]"
proof -
  have "trimLeftSpace (c # m @ [d]) = c # m @ [d]"
    using leadingSpace_text [OF assms(1)] by (subst trimLeftSpace.simps) simp
  moreover have "trimRevSpace (d # rev m @ [c]) = d # rev m @ [c]"
    using trailingSpace_text [OF assms(2)] by (subst trimRevSpace.simps) simp
  ultimately show ?thesis by (simp add: TrimSpace_def)
qed

section \<open>Facts about the matcher\<close>

lemma tryRep_sound:
  "tryRep n mn k s = Some r \<Longrightarrow> \<exists>j. mn \<le> j \<and> j \<le> n \<and> k (drop j s) = Some r"
proof (induction n)
  case 0
  then show ?case by (auto split: if_splits)
next
  case (Suc n)
  show ?case
  proof (cases "k (drop (Suc n) s)")
    case None
    with Suc.prems have "tryRep n mn k s = Some r" by (auto split: if_splits)
    from Suc.IH [OF this] show ?thesis by (metis le_Suc_eq)
  next
    case (Some r')
    with Suc.prems have "r' = r" "mn \<le> Suc n" by (auto split: if_splits)
    with Some show ?thesis by blast
  qed
qed

lemma tryRep_first: "mn \<le> n \<Longrightarrow> k (drop n s) = Some r \<Longrightarrow> tryRep n mn k s = Some r"
  by (cases n) auto

lemma take_takeWhile_le:
  "j \<le> length (takeWhile P s) \<Longrightarrow> take j s = take j (takeWhile P s)"
proof (induction s arbitrary: j)
  case Nil
  then show ?case by simp
next
  case (Cons x s)
  then show ?case by (cases j) (auto split: if_splits)
qed

lemma matchSeq_Nil: "matchSeq [] k = k"
  by (rule ext) simp

lemma matchSeq_Rep:
  "matchSeq [Rep c mn None] k s = tryRep (length (takeWhile (inClass c) s)) mn k s"
  by (simp add: Let_def matchSeq_Nil)

lemma firstAlt_single: "firstAlt [alt] k s = matchSeq alt k s"
  by (simp split: option.splits)

lemma rep_sound:
  assumes "matchSeq [Rep c mn None] k s = Some r"
  shows "\<exists>p t. s = p @ t \<and> (\<forall>x \<in> set p. inClass c x) \<and> mn \<le> length p \<and> k t = Some r"
proof -
  let ?n = "length (takeWhile (inClass c) s)"
  from assms have "tryRep ?n mn k s = Some r" by (simp only: matchSeq_Rep)
  from tryRep_sound [OF this] obtain j where
    j: "mn \<le> j" "j \<le> ?n" "k (drop j s) = Some r"
    by blast
  from take_takeWhile_le [OF j(2)]
  have "set (take j s) \<subseteq> set (takeWhile (inClass c) s)"
    by (simp add: set_take_subset)
  then have "\<forall>x \<in> set (take j s). inClass c x"
    by (auto dest: set_takeWhileD)
  moreover from j(2) have "j \<le> length s"
    using length_takeWhile_le [of "inClass c" s] by simp
  then have "length (take j s) = j" by simp
  ultimately show ?thesis
    using j by (intro exI [of _ "take j s"] exI [of _ "drop j s"]) simp
qed

lemma lit_match: "k t = Some r \<Longrightarrow> matchSeq [Lit l] k (l @ t) = Some r"
  by (simp add: HasPrefix_append matchSeq_Nil)

text \<open>A greedy repetition that takes a whole run and is followed by a match.\<close>

lemma rep_match:
  assumes "\<forall>x \<in> set p. inClass c x" "t = [] \<or> \<not> inClass c (hd t)" "mn \<le> length p"
    "k t = Some r"
  shows "matchSeq [Rep c mn None] k (p @ t) = Some r"
proof -
  from assms(1,2) have "takeWhile (inClass c) (p @ t) = p"
    by (cases t) (simp_all add: takeWhile_append2)
  moreover have "tryRep (length p) mn k (p @ t) = Some r"
    by (rule tryRep_first) (use assms in simp_all)
  ultimately show ?thesis by (simp only: matchSeq_Rep)
qed

lemma group_types:
  assumes "zeroValue T = Some Z" "matchAtoms as rest = Some (caps, r)"
  shows "matchAtoms (Group typeAlts6 # as) (T @ rest) = Some (T # caps, r)"
proof -
  have "firstAlt typeAlts6 k (T @ rest) = k rest" if "k rest \<noteq> None"
    for k :: "string \<Rightarrow> (string list \<times> string) option"
  proof -
    from assms(1) consider "T = ''vec2''" | "T = ''vec3''" | "T = ''vec4''" | "T = ''float''"
      | "T = ''int''" | "T = ''bool''"
      by (auto simp: zeroValue_def split: if_splits)
    then show ?thesis
      using that by cases (auto simp: typeAlts6_def)
  qed
  then show ?thesis using assms(2) by simp
qed

lemma lit_sound:
  "matchSeq [Lit l] k s = Some r \<Longrightarrow> \<exists>t. s = l @ t \<and> k t = Some r"
  by (auto simp: HasPrefix_iff split: if_splits)

lemma isWord_not_space: "isWord c \<Longrightarrow> \<not> isSpaceRE c"
  by (auto simp: isWord_def isDigit_def isAlpha_def isSpaceRE_def)

lemma isWord_not_punct: "isWord c \<Longrightarrow> c \<noteq> CHR '';'' \<and> c \<noteq> CHR '','' \<and> c \<noteq> CHR '' ''"
  by (auto simp: isWord_def isDigit_def isAlpha_def)

lemma isSpaceRE_not_punct: "isSpaceRE c \<Longrightarrow> c \<noteq> CHR '';'' \<and> c \<noteq> CHR '',''"
  by (auto simp: isSpaceRE_def)

subsection \<open>The chain pattern\<close>

lemma chainBody_sound:
  assumes "matchAtoms (snd chainVarPattern) s = Some r"
  shows "\<exists>p t. s = '','' @ p @ '';'' @ t \<and> (\<forall>c \<in> set p. isSpaceRE c \<or> isWord c)"
proof -
  let ?k1 = "matchAtoms [spaces1, Group [[word1]], spaces0, Plain (Lit '';'')]"
  from assms have "matchSeq [Lit '',''] ?k1 s = Some r"
    by (simp add: chainVarPattern_def)
  from lit_sound [OF this] obtain s1 where s1: "s = '','' @ s1" "?k1 s1 = Some r"
    by blast
  let ?k2 = "matchAtoms [Group [[word1]], spaces0, Plain (Lit '';'')]"
  from s1(2) have "matchSeq [Rep CSpace 1 None] ?k2 s1 = Some r" by simp
  from rep_sound [OF this] obtain p1 s2 where
    p1: "s1 = p1 @ s2" "\<forall>x \<in> set p1. isSpaceRE x" "?k2 s2 = Some r"
    by auto
  let ?k3 = "\<lambda>rest. map_option (\<lambda>(caps, r). (take (length s2 - length rest) s2 # caps, r))
                 (matchAtoms [spaces0, Plain (Lit '';'')] rest)"
  from p1(3) have "matchSeq [Rep CWord 1 None] ?k3 s2 = Some r"
    by (simp split: option.splits)
  from rep_sound [OF this] obtain p2 s3 where
    p2: "s2 = p2 @ s3" "\<forall>x \<in> set p2. isWord x" "?k3 s3 = Some r"
    by auto
  from p2(3) obtain r' where "matchAtoms [spaces0, Plain (Lit '';'')] s3 = Some r'"
    by auto
  then have "matchSeq [Rep CSpace 0 None] (matchAtoms [Plain (Lit '';'')]) s3 = Some r'"
    by simp
  from rep_sound [OF this] obtain p3 s4 where
    p3: "s3 = p3 @ s4" "\<forall>x \<in> set p3. isSpaceRE x" "matchAtoms [Plain (Lit '';'')] s4 = Some r'"
    by auto
  from p3(3) have "matchSeq [Lit '';''] (matchAtoms []) s4 = Some r'" by simp
  from lit_sound [OF this] obtain t where t: "s4 = '';'' @ t" by blast
  have "s = '','' @ (p1 @ p2 @ p3) @ '';'' @ t"
    using s1 p1 p2 p3 t by simp
  moreover have "\<forall>c \<in> set (p1 @ p2 @ p3). isSpaceRE c \<or> isWord c"
    using p1 p2 p3 by auto
  ultimately show ?thesis by blast
qed

lemma chainBody_at:
  assumes "b \<noteq> []" "\<forall>c \<in> set b. isWord c"
  shows "matchAtoms (snd chainVarPattern) ('', '' @ b @ '';'' @ t) = Some ([b], t)"
proof -
  have k4: "matchAtoms [Plain (Lit '';'')] ('';'' @ t) = Some ([], t)"
    by simp
  have "matchSeq [Rep CSpace 0 None] (matchAtoms [Plain (Lit '';'')]) ([] @ '';'' @ t)
          = Some ([], t)"
    by (rule rep_match) (use k4 in \<open>simp_all add: isSpaceRE_def\<close>)
  then have k3: "matchAtoms [spaces0, Plain (Lit '';'')] ('';'' @ t) = Some ([], t)"
    by (simp only: matchAtoms.simps append_Nil)
  let ?s2 = "b @ '';'' @ t"
  let ?k3 = "\<lambda>rest. map_option (\<lambda>(caps, r). (take (length ?s2 - length rest) ?s2 # caps, r))
                 (matchAtoms [spaces0, Plain (Lit '';'')] rest)"
  have "?k3 ('';'' @ t) = Some ([b], t)"
    by (simp only: k3) simp
  then have "matchSeq [Rep CWord 1 None] ?k3 (b @ '';'' @ t) = Some ([b], t)"
    using assms
    by (intro rep_match) (auto simp: isWord_def isDigit_def isAlpha_def Suc_le_eq)
  then have k2: "matchAtoms [Group [[word1]], spaces0, Plain (Lit '';'')] ?s2 = Some ([b], t)"
    by (simp only: matchAtoms.simps firstAlt_single)
  from assms have "\<not> isSpaceRE (hd ?s2)"
    by (cases b) (auto simp: isWord_not_space)
  then have "matchSeq [Rep CSpace 1 None]
          (matchAtoms [Group [[word1]], spaces0, Plain (Lit '';'')]) ('' '' @ ?s2)
        = Some ([b], t)"
    by (intro rep_match) (use k2 in \<open>simp_all add: isSpaceRE_def\<close>)
  then have k1: "matchAtoms [spaces1, Group [[word1]], spaces0, Plain (Lit '';'')] ('' '' @ ?s2)
      = Some ([b], t)"
    by (simp only: matchAtoms.simps)
  have "matchSeq [Lit '',''] (matchAtoms [spaces1, Group [[word1]], spaces0, Plain (Lit '';'')])
          ('','' @ '' '' @ ?s2) = Some ([b], t)"
    using k1 by (rule lit_match)
  then have "matchAtoms (snd chainVarPattern) ('','' @ '' '' @ ?s2) = Some ([b], t)"
    unfolding chainVarPattern_def snd_conv by (simp only: matchAtoms.simps)
  then show ?thesis by simp
qed

lemma chainBody_fail:
  assumes "pre \<noteq> []" "CHR '';'' \<notin> set pre" "\<forall>c \<in> set b. isWord c"
  shows "matchAtoms (snd chainVarPattern) (pre @ '', '' @ b @ '';'') = None"
proof (rule ccontr)
  assume "matchAtoms (snd chainVarPattern) (pre @ '', '' @ b @ '';'') \<noteq> None"
  then obtain r where "matchAtoms (snd chainVarPattern) (pre @ '', '' @ b @ '';'') = Some r"
    by auto
  from chainBody_sound [OF this] obtain p t where
    pt: "pre @ '', '' @ b @ '';'' = '','' @ p @ '';'' @ t"
    "\<forall>c \<in> set p. isSpaceRE c \<or> isWord c"
    by blast
  let ?P = "\<lambda>c. c \<noteq> CHR '';''"
  have nb: "CHR '';'' \<notin> set b" using assms(3) isWord_not_punct by blast
  have np: "CHR '';'' \<notin> set p" using pt(2) isWord_not_punct isSpaceRE_not_punct by blast
  have "takeWhile ?P ((pre @ '', '' @ b) @ CHR '';'' # []) = pre @ '', '' @ b"
    using assms(2) nb by (intro takeWhile_upto) simp
  moreover have "takeWhile ?P (('','' @ p) @ CHR '';'' # t) = '','' @ p"
    using np by (intro takeWhile_upto) simp
  ultimately have eq: "pre @ '', '' @ b = '','' @ p" using pt(1) by simp
  from assms(1) obtain c pre' where pre: "pre = c # pre'" by (cases pre) auto
  with eq have "p = pre' @ '', '' @ b" by simp
  then have "CHR '','' \<in> set p" by simp
  with pt(2) isWord_not_punct isSpaceRE_not_punct show False by blast
qed

lemma searchFrom_chain:
  assumes "CHR '';'' \<notin> set pre" "b \<noteq> []" "\<forall>c \<in> set b. isWord c"
  shows "searchFrom chainVarPattern prev pos (pre @ '', '' @ b @ '';'')
           = Some (pos + length pre, pos + length pre + length b + 3, [b])"
  using assms(1)
proof (induction pre arbitrary: prev pos)
  case Nil
  have an: "fst chainVarPattern = Anywhere" by (simp add: chainVarPattern_def)
  from chainBody_at [OF assms(2,3), of "[]"]
  have "matchAtoms (snd chainVarPattern) (CHR '','' # '' '' @ b @ '';'') = Some ([b], [])"
    by simp
  then show ?case by (simp add: an anchorOK_def)
next
  case (Cons c pre)
  have an: "fst chainVarPattern = Anywhere" by (simp add: chainVarPattern_def)
  from Cons.prems have "matchAtoms (snd chainVarPattern) ((c # pre) @ '', '' @ b @ '';'') = None"
    by (intro chainBody_fail assms) auto
  then have "matchAtoms (snd chainVarPattern) (c # pre @ '', '' @ b @ '';'') = None" by simp
  moreover from Cons have "searchFrom chainVarPattern (Some c) (Suc pos) (pre @ '', '' @ b @ '';'')
           = Some (Suc pos + length pre, Suc pos + length pre + length b + 3, [b])"
    by simp
  ultimately show ?case by (simp add: an anchorOK_def)
qed

lemma FindStringSubmatch_chain:
  assumes "CHR '';'' \<notin> set pre" "b \<noteq> []" "\<forall>c \<in> set b. isWord c"
  shows "\<exists>whole. FindStringSubmatch chainVarPattern (pre @ '', '' @ b @ '';'') = Some [whole, b]"
  using searchFrom_chain [OF assms, of None 0]
  by (simp add: FindStringSubmatch_def execute_def)

subsection \<open>The type of a declaration\<close>

lemma FindStringSubmatch_typeDecl:
  assumes "zeroValue T = Some Z" "isWord a0"
  shows "\<exists>whole. FindStringSubmatch typeDeclPattern (T @ '' '' @ (a0 # rest)) = Some [whole, T]"
proof -
  let ?w = "takeWhile isWord (a0 # rest)"
  let ?t = "dropWhile isWord (a0 # rest)"
  have split: "a0 # rest = ?w @ ?t" by simp
  have "matchSeq [Rep CWord 1 None] (matchAtoms []) (?w @ ?t) = Some ([], ?t)"
  proof (rule rep_match)
    show "\<forall>x \<in> set ?w. inClass CWord x" by (auto dest: set_takeWhileD)
    show "?t = [] \<or> \<not> inClass CWord (hd ?t)"
      by (metis hd_dropWhile inClass.simps(4))
    show "1 \<le> length ?w" using assms(2) by simp
    show "matchAtoms [] ?t = Some ([], ?t)" by simp
  qed
  then have wd: "matchAtoms [Plain word1] (a0 # rest) = Some ([], ?t)"
    by (simp only: matchAtoms.simps flip: split)
  have "matchSeq [Rep CSpace 1 None] (matchAtoms [Plain word1]) ('' '' @ (a0 # rest))
          = Some ([], ?t)"
    by (rule rep_match) (use wd assms(2) isWord_not_space in \<open>simp_all add: isSpaceRE_def\<close>)
  then have sp: "matchAtoms [spaces1, Plain word1] ('' '' @ (a0 # rest)) = Some ([], ?t)"
    by (simp only: matchAtoms.simps)
  from group_types [OF assms(1) sp]
  have m: "matchAtoms (snd typeDeclPattern) (T @ '' '' @ (a0 # rest)) = Some ([T], ?t)"
    by (simp add: typeDeclPattern_def)
  from assms(1) obtain t0 T' where T: "T = t0 # T'" "isWord t0"
    by (auto simp: zeroValue_def isWord_def isAlpha_def split: if_splits)
  then have "anchorOK (fst typeDeclPattern) None (T @ '' '' @ (a0 # rest))"
    by (simp add: typeDeclPattern_def anchorOK_def)
  with m T show ?thesis
    by (simp add: FindStringSubmatch_def execute_def del: matchAtoms.simps)
qed

section \<open>Pass selection\<close>

lemma findImagePass_None: "findImagePass ps = None \<longleftrightarrow> (\<forall>p \<in> set ps. \<not> isImagePass p)"
  by (induction ps) auto

lemma findImagePass_Some:
  "findImagePass ps = Some p \<Longrightarrow>
     \<exists>i < length ps. ps ! i = p \<and> isImagePass p \<and> (\<forall>j < i. \<not> isImagePass (ps ! j))"
proof (induction ps)
  case Nil
  then show ?case by simp
next
  case (Cons q ps)
  show ?case
  proof (cases "isImagePass q")
    case True
    with Cons.prems have "p = q" by simp
    with True show ?thesis by (intro exI [of _ 0]) simp
  next
    case False
    with Cons.prems have "findImagePass ps = Some p" by simp
    from Cons.IH [OF this] obtain i where
      i: "i < length ps" "ps ! i = p" "isImagePass p" "\<forall>j < i. \<not> isImagePass (ps ! j)"
      by blast
    have "\<forall>j < Suc i. \<not> isImagePass ((q # ps) ! j)"
      using False i(4) by (auto simp: nth_Cons split: nat.splits)
    with i show ?thesis by (intro exI [of _ "Suc i"]) simp
  qed
qed

lemma mainPass_cases:
  assumes "Passes sd \<noteq> []"
  shows "(\<exists>i < length (Passes sd).
            mainPass sd = Inr (Passes sd ! i) \<and> isImagePass (Passes sd ! i) \<and>
            (\<forall>j < i. \<not> isImagePass (Passes sd ! j)))
         \<or> ((\<forall>p \<in> set (Passes sd). \<not> isImagePass p) \<and> mainPass sd = Inr (Passes sd ! 0))"
proof (cases "findImagePass (Passes sd)")
  case None
  then have "\<forall>p \<in> set (Passes sd). \<not> isImagePass p"
    by (simp add: findImagePass_None)
  moreover from None assms have "mainPass sd = Inr (Passes sd ! 0)"
    by (cases "Passes sd") (simp_all add: mainPass_def)
  ultimately show ?thesis by blast
next
  case (Some r)
  from findImagePass_Some [OF Some] obtain i where
    "i < length (Passes sd)" "Passes sd ! i = r" "isImagePass r"
    "\<forall>j < i. \<not> isImagePass (Passes sd ! j)"
    by blast
  moreover from Some have "mainPass sd = Inr r" by (simp add: mainPass_def)
  ultimately show ?thesis by auto
qed

text \<open>
  C2.  For a container with at least one pass, the selected pass is the first one, in
  sequence order, whose type is "image" or whose name is "Image"; when no pass matches it
  is the first pass of the sequence.  For two passes of which only the second has type
  "image", the second one is selected.
\<close>

theorem mainPass_selects_first_image:
  "(Passes sd \<noteq> [] \<longrightarrow>
      (\<exists>i < length (Passes sd).
          mainPass sd = Inr (Passes sd ! i) \<and> isImagePass (Passes sd ! i) \<and>
          (\<forall>j < i. \<not> isImagePass (Passes sd ! j)))
      \<or> ((\<forall>p \<in> set (Passes sd). \<not> isImagePass p) \<and> mainPass sd = Inr (Passes sd ! 0)))
   \<and> (Passes sd = [p, q] \<and> \<not> isImagePass p \<and> ShaderPass.Type q = ''image'' \<longrightarrow>
        mainPass sd = Inr q)"
proof (intro conjI impI)
  assume "Passes sd \<noteq> []"
  then show "(\<exists>i < length (Passes sd).
          mainPass sd = Inr (Passes sd ! i) \<and> isImagePass (Passes sd ! i) \<and>
          (\<forall>j < i. \<not> isImagePass (Passes sd ! j)))
      \<or> ((\<forall>p \<in> set (Passes sd). \<not> isImagePass p) \<and> mainPass sd = Inr (Passes sd ! 0))"
    by (rule mainPass_cases)
next
  assume "Passes sd = [p, q] \<and> \<not> isImagePass p \<and> ShaderPass.Type q = ''image''"
  then show "mainPass sd = Inr q"
    by (simp add: mainPass_def isImagePass_def)
qed

theorem mainPass_selects_first_image_witness:
  "mainPass \<lparr>Metadata = None,
     Passes = [\<lparr>Index = 0, Code = ''a'', Inputs = [], Type = ''buffer'', Name = ''Buf A''\<rparr>,
               \<lparr>Index = 1, Code = ''b'', Inputs = [], Type = ''image'', Name = ''Main''\<rparr>],
     Screenshots = []\<rparr>
   = Inr \<lparr>Index = 1, Code = ''b'', Inputs = [], Type = ''image'', Name = ''Main''\<rparr>"
  using mainPass_selects_first_image
    [of "\<lparr>Metadata = None,
     Passes = [\<lparr>Index = 0, Code = ''a'', Inputs = [], Type = ''buffer'', Name = ''Buf A''\<rparr>,
               \<lparr>Index = 1, Code = ''b'', Inputs = [], Type = ''image'', Name = ''Main''\<rparr>],
     Screenshots = []\<rparr>"
        "\<lparr>Index = 0, Code = ''a'', Inputs = [], Type = ''buffer'', Name = ''Buf A''\<rparr>"
        "\<lparr>Index = 1, Code = ''b'', Inputs = [], Type = ''image'', Name = ''Main''\<rparr>"]
  by (simp add: isImagePass_def)

section \<open>The loader\<close>

text \<open>
  C1.  Go's \<open>json.Unmarshal\<close> rejects empty input, which is the assumption on the
  decoder.  Then the loader returns an error exactly when the escaped bytes cannot be
  decoded or the decoded container has no passes, and otherwise it returns the decoded
  container; a container with an empty pass list gives the error for "no passes".
\<close>

theorem loadEmbeddedShader_fails_iff:
  assumes "unmarshal [] = None"
  shows "((\<exists>err. loadEmbeddedShader unmarshal data = Inl err) \<longleftrightarrow>
            (\<exists>pre. preprocessJSON data = Inr pre \<and>
               (unmarshal pre = None \<or>
                (\<exists>shaderData. unmarshal pre = Some shaderData \<and> Passes shaderData = []))))
         \<and> (\<forall>pre shaderData.
               preprocessJSON data = Inr pre \<and> unmarshal pre = Some shaderData \<longrightarrow>
                 loadEmbeddedShader unmarshal data =
                   (if Passes shaderData = [] then Inl NoPasses else Inr shaderData))"
proof -
  obtain pre where pre: "preprocessJSON data = Inr pre"
    by (simp add: preprocessJSON_def)
  have empty: "pre = []" if "data = []"
    using that pre by (simp add: preprocessJSON_def)
  show ?thesis
  proof (cases "data = []")
    case True
    with assms pre empty show ?thesis
      by (auto simp: loadEmbeddedShader_def)
  next
    case False
    with pre show ?thesis
      by (cases "unmarshal pre") (auto simp: loadEmbeddedShader_def)
  qed
qed

theorem loadEmbeddedShader_fails_iff_witness:
  "(\<lambda>s. if s = ''{}'' then Some \<lparr>Metadata = None, Passes = [], Screenshots = []\<rparr>
         else None) [] = None
   \<and> loadEmbeddedShader
        (\<lambda>s. if s = ''{}'' then Some \<lparr>Metadata = None, Passes = [], Screenshots = []\<rparr>
              else None) ''{}''
       = Inl NoPasses"
proof -
  let ?u = "\<lambda>s. if s = ''{}''
                 then Some \<lparr>Metadata = None, Passes = [], Screenshots = []\<rparr> else None"
  have u: "?u [] = None" by simp
  have pre: "preprocessJSON ''{}'' = Inr ''{}''"
    by (simp add: preprocessJSON_def)
  from loadEmbeddedShader_fails_iff [of ?u "''{}''", OF u] pre
  show ?thesis by simp
qed

section \<open>The string-literal escaper\<close>

lemma escapeInString_plain: "\<not> controlByte c \<Longrightarrow> escapeInString c = [c]"
  by (auto simp: escapeInString_def controlByte_def)

lemma backslashesBefore_mid:
  "backslashesBefore (rev before @ rest) (length before)
     = length (takeWhile (\<lambda>d. d = BSLASH) before)"
  by (simp add: backslashesBefore_def)

lemma backslashesBefore_Suc:
  "backslashesBefore (rev before @ c # rest) (Suc (length before))
     = (if c = BSLASH then Suc (backslashesBefore (rev before @ c # rest) (length before))
        else 0)"
proof -
  have "backslashesBefore (rev (c # before) @ rest) (length (c # before))
          = length (takeWhile (\<lambda>d. d = BSLASH) (c # before))"
    by (rule backslashesBefore_mid)
  moreover have "backslashesBefore (rev before @ (c # rest)) (length before)
          = length (takeWhile (\<lambda>d. d = BSLASH) before)"
    by (rule backslashesBefore_mid)
  ultimately show ?thesis by auto
qed

lemma insideString_Suc:
  "insideString data (Suc i) = (insideString data i \<noteq> togglingQuote data i)"
  by (simp add: insideString_def)

lemma escapeLoop_contract:
  "escapeLoop before (insideString (rev before @ rest) (length before))
       (escapeConsumed (rev before @ rest) (length before)) rest
     = concat (map (escapedByte (rev before @ rest))
                 [length before ..< length before + length rest])"
proof (induction rest arbitrary: before)
  case Nil
  then show ?case by simp
next
  case (Cons c rest)
  let ?data = "rev before @ c # rest"
  let ?n = "length before"
  have data: "rev (c # before) @ rest = ?data" by simp
  have nth: "(rev before @ x # rest) ! ?n = x" for x
    by (simp add: nth_append)
  have bs: "backslashesBefore ?data ?n = length (takeWhile (\<lambda>d. d = BSLASH) before)"
    by (rule backslashesBefore_mid)
  have "?n < ?n + length (c # rest)" by simp
  from upt_conv_Cons [OF this]
  have "[?n ..< ?n + length (c # rest)] = ?n # [Suc ?n ..< Suc ?n + length rest]"
    by (simp del: upt_Suc)
  then have rhs: "concat (map (escapedByte ?data) [?n ..< ?n + length (c # rest)])
      = escapedByte ?data ?n
        @ concat (map (escapedByte ?data) [Suc ?n ..< Suc ?n + length rest])"
    by (simp del: upt_Suc)
  have IH: "concat (map (escapedByte ?data) [Suc ?n ..< Suc ?n + length rest])
            = escapeLoop (c # before) (insideString ?data (Suc ?n))
                (escapeConsumed ?data (Suc ?n)) rest"
    using Cons.IH [of "c # before"] by (simp del: upt_Suc)
  have esc_Suc: "escapeConsumed ?data (Suc ?n)
                   = (c = BSLASH \<and> \<not> escapeConsumed ?data ?n)"
    by (simp add: escapeConsumed_def backslashesBefore_Suc)
  have in_Suc: "insideString ?data (Suc ?n)
                  = (insideString ?data ?n \<noteq>
                      (c = DQUOTE \<and> \<not> escapeConsumed ?data ?n))"
    by (simp add: insideString_Suc togglingQuote_def nth escapeConsumed_def)
  have plainB: "escapeInString BSLASH = [BSLASH]"
    by (simp add: escapeInString_def)
  have plainQ: "escapeInString DQUOTE = [DQUOTE]"
    by (simp add: escapeInString_def)
  have even: "length (takeWhile (\<lambda>d. d = BSLASH) before) mod 2 = 0"
    if "\<not> escapeConsumed ?data ?n"
    using that by (simp add: escapeConsumed_def bs)
  have "escapeLoop before (insideString ?data ?n) (escapeConsumed ?data ?n) (c # rest)
        = escapedByte ?data ?n
          @ escapeLoop (c # before) (insideString ?data (Suc ?n))
              (escapeConsumed ?data (Suc ?n)) rest"
  proof (cases "escapeConsumed ?data ?n")
    case True
    then show ?thesis
      by (simp add: esc_Suc in_Suc escapedByte_def nth)
  next
    case False
    then show ?thesis
      using even [OF False]
      by (simp add: esc_Suc in_Suc escapedByte_def nth plainB plainQ Let_def)
  qed
  then show ?case
    unfolding rhs IH .
qed

lemma escapeInString_no_control: "c' \<in> set (escapeInString c) \<Longrightarrow> \<not> controlByte c'"
proof -
  have hex: "\<not> controlByte (hexDigit n)" for n
  proof -
    have "n mod 16 < length ''0123456789abcdef''" by simp
    then have "hexDigit n \<in> set ''0123456789abcdef''"
      unfolding hexDigit_def by (rule nth_mem)
    then show ?thesis
      by (auto simp: controlByte_def)
  qed
  assume "c' \<in> set (escapeInString c)"
  then show ?thesis
    using hex
    by (auto simp: escapeInString_def sprintf_u04x_def Let_def controlByte_def
        split: if_splits)
qed

lemma escapeInString_table:
  assumes "controlByte c"
  shows "escapeInString c =
     [BSLASH # ''u0000'', BSLASH # ''u0001'', BSLASH # ''u0002'', BSLASH # ''u0003'',
      BSLASH # ''u0004'', BSLASH # ''u0005'', BSLASH # ''u0006'', BSLASH # ''u0007'',
      BSLASH # ''u0008'', BSLASH # ''t'', BSLASH # ''n'', BSLASH # ''u000b'',
      BSLASH # ''u000c'', BSLASH # ''r'', BSLASH # ''u000e'', BSLASH # ''u000f'',
      BSLASH # ''u0010'', BSLASH # ''u0011'', BSLASH # ''u0012'', BSLASH # ''u0013'',
      BSLASH # ''u0014'', BSLASH # ''u0015'', BSLASH # ''u0016'', BSLASH # ''u0017'',
      BSLASH # ''u0018'', BSLASH # ''u0019'', BSLASH # ''u001a'', BSLASH # ''u001b'',
      BSLASH # ''u001c'', BSLASH # ''u001d'', BSLASH # ''u001e'', BSLASH # ''u001f'']
       ! of_char c"
proof -
  let ?chars =
    "[CHR 0x00, CHR 0x01, CHR 0x02, CHR 0x03, CHR 0x04, CHR 0x05, CHR 0x06, CHR 0x07,
      CHR 0x08, CHR 0x09, CHR 0x0A, CHR 0x0B, CHR 0x0C, CHR 0x0D, CHR 0x0E, CHR 0x0F,
      CHR 0x10, CHR 0x11, CHR 0x12, CHR 0x13, CHR 0x14, CHR 0x15, CHR 0x16, CHR 0x17,
      CHR 0x18, CHR 0x19, CHR 0x1A, CHR 0x1B, CHR 0x1C, CHR 0x1D, CHR 0x1E, CHR 0x1F]"
  let ?table =
    "[BSLASH # ''u0000'', BSLASH # ''u0001'', BSLASH # ''u0002'', BSLASH # ''u0003'',
      BSLASH # ''u0004'', BSLASH # ''u0005'', BSLASH # ''u0006'', BSLASH # ''u0007'',
      BSLASH # ''u0008'', BSLASH # ''t'', BSLASH # ''n'', BSLASH # ''u000b'',
      BSLASH # ''u000c'', BSLASH # ''r'', BSLASH # ''u000e'', BSLASH # ''u000f'',
      BSLASH # ''u0010'', BSLASH # ''u0011'', BSLASH # ''u0012'', BSLASH # ''u0013'',
      BSLASH # ''u0014'', BSLASH # ''u0015'', BSLASH # ''u0016'', BSLASH # ''u0017'',
      BSLASH # ''u0018'', BSLASH # ''u0019'', BSLASH # ''u001a'', BSLASH # ''u001b'',
      BSLASH # ''u001c'', BSLASH # ''u001d'', BSLASH # ''u001e'', BSLASH # ''u001f'']"
  let ?n = "of_char c :: nat"
  have table: "map escapeInString ?chars = ?table"
    by (simp add: escapeInString_def sprintf_u04x_def hexDigit_def Let_def)
  have codes: "map of_char ?chars = [0 ..< (32 :: nat)]"
    by (simp add: upt_rec)
  from assms have n: "?n < 32" by (simp add: controlByte_def)
  have len: "length ?chars = 32" by simp
  have "of_char (?chars ! ?n) = map (of_char :: char \<Rightarrow> nat) ?chars ! ?n"
    using n len by (simp only: nth_map)
  also have "\<dots> = ?n" using n by (simp only: codes nth_upt)
  finally have c: "?chars ! ?n = c" by (simp only: of_char_eq_iff)
  have "?table ! ?n = map escapeInString ?chars ! ?n" by (simp only: table)
  also have "\<dots> = escapeInString (?chars ! ?n)" using n len by (simp only: nth_map)
  finally show ?thesis by (simp only: c)
qed


text \<open>
  C7 (as the code has it).  The escaper never returns an error.  Its output is the
  input's bytes, each replaced in place by what the contract gives for it.  A byte that
  is inside a string literal (after an odd number of quotes that each follow an even
  number of consecutive backslashes) and does not directly follow an escaping backslash
  becomes \<open>\n\<close>, \<open>\r\<close>, \<open>\t\<close> or \<open>\u00XX\<close> with two lower-case hexadecimal
  digits when it is a control byte (the thirty-two escapes are listed), and is copied
  otherwise; no control byte is left from such a position.  A byte outside a string
  literal passes through unchanged.  The byte right after an escaping backslash (a
  backslash that does not itself follow one) is escape-consumed: the loop copies it
  before it looks at the string state, also when it is a control byte inside a string
  literal.
\<close>

theorem preprocessJSON_escapes_in_strings:
  "preprocessJSON data = Inr (concat (map (escapedByte data) [0 ..< length data]))
   \<and> (\<forall>i < length data.
        (insideString data i \<and> \<not> escapeConsumed data i \<longrightarrow>
           (\<forall>c \<in> set (escapedByte data i). \<not> controlByte c) \<and>
           (data ! i = NL \<longrightarrow> escapedByte data i = [BSLASH, CHR ''n'']) \<and>
           (data ! i = CR \<longrightarrow> escapedByte data i = [BSLASH, CHR ''r'']) \<and>
           (data ! i = TAB \<longrightarrow> escapedByte data i = [BSLASH, CHR ''t'']) \<and>
           (controlByte (data ! i) \<longrightarrow>
              escapedByte data i =
                [BSLASH # ''u0000'', BSLASH # ''u0001'', BSLASH # ''u0002'', BSLASH # ''u0003'',
              BSLASH # ''u0004'', BSLASH # ''u0005'', BSLASH # ''u0006'', BSLASH # ''u0007'',
              BSLASH # ''u0008'', BSLASH # ''t'', BSLASH # ''n'', BSLASH # ''u000b'',
              BSLASH # ''u000c'', BSLASH # ''r'', BSLASH # ''u000e'', BSLASH # ''u000f'',
              BSLASH # ''u0010'', BSLASH # ''u0011'', BSLASH # ''u0012'', BSLASH # ''u0013'',
              BSLASH # ''u0014'', BSLASH # ''u0015'', BSLASH # ''u0016'', BSLASH # ''u0017'',
              BSLASH # ''u0018'', BSLASH # ''u0019'', BSLASH # ''u001a'', BSLASH # ''u001b'',
              BSLASH # ''u001c'', BSLASH # ''u001d'', BSLASH # ''u001e'', BSLASH # ''u001f'']
                ! of_char (data ! i)) \<and>
           (\<not> controlByte (data ! i) \<longrightarrow> escapedByte data i = [data ! i])) \<and>
        (\<not> insideString data i \<longrightarrow> escapedByte data i = [data ! i]) \<and>
        (escapeConsumed data i \<longrightarrow> escapedByte data i = [data ! i]))"
proof (intro conjI allI impI)
  have "escapeLoop [] (insideString (rev [] @ data) (length ([] :: string)))
          (escapeConsumed (rev [] @ data) (length ([] :: string))) data
        = concat (map (escapedByte (rev [] @ data))
                    [length ([] :: string) ..< length ([] :: string) + length data])"
    by (rule escapeLoop_contract)
  moreover have "insideString data 0 = False"
    by (simp add: insideString_def)
  moreover have "escapeConsumed data 0 = False"
    by (simp add: escapeConsumed_def backslashesBefore_def)
  ultimately show "preprocessJSON data
      = Inr (concat (map (escapedByte data) [0 ..< length data]))"
    by (simp add: preprocessJSON_def)
next
  fix i
  assume "i < length data" "insideString data i \<and> \<not> escapeConsumed data i"
  then show "\<forall>c \<in> set (escapedByte data i). \<not> controlByte c"
    by (auto simp: escapedByte_def dest: escapeInString_no_control)
next
  fix i
  assume "insideString data i \<and> \<not> escapeConsumed data i" "data ! i = NL"
  then show "escapedByte data i = [BSLASH, CHR ''n'']"
    by (simp add: escapedByte_def escapeInString_def)
next
  fix i
  assume "insideString data i \<and> \<not> escapeConsumed data i" "data ! i = CR"
  then show "escapedByte data i = [BSLASH, CHR ''r'']"
    by (simp add: escapedByte_def escapeInString_def)
next
  fix i
  assume "insideString data i \<and> \<not> escapeConsumed data i" "data ! i = TAB"
  then show "escapedByte data i = [BSLASH, CHR ''t'']"
    by (simp add: escapedByte_def escapeInString_def)
next
  fix i
  assume a: "insideString data i \<and> \<not> escapeConsumed data i" "controlByte (data ! i)"
  from a(1) have "escapedByte data i = escapeInString (data ! i)"
    by (simp add: escapedByte_def)
  also note escapeInString_table [OF a(2)]
  finally show "escapedByte data i =
                [BSLASH # ''u0000'', BSLASH # ''u0001'', BSLASH # ''u0002'', BSLASH # ''u0003'',
              BSLASH # ''u0004'', BSLASH # ''u0005'', BSLASH # ''u0006'', BSLASH # ''u0007'',
              BSLASH # ''u0008'', BSLASH # ''t'', BSLASH # ''n'', BSLASH # ''u000b'',
              BSLASH # ''u000c'', BSLASH # ''r'', BSLASH # ''u000e'', BSLASH # ''u000f'',
              BSLASH # ''u0010'', BSLASH # ''u0011'', BSLASH # ''u0012'', BSLASH # ''u0013'',
              BSLASH # ''u0014'', BSLASH # ''u0015'', BSLASH # ''u0016'', BSLASH # ''u0017'',
              BSLASH # ''u0018'', BSLASH # ''u0019'', BSLASH # ''u001a'', BSLASH # ''u001b'',
              BSLASH # ''u001c'', BSLASH # ''u001d'', BSLASH # ''u001e'', BSLASH # ''u001f'']
                ! of_char (data ! i)" .
next
  fix i
  assume "insideString data i \<and> \<not> escapeConsumed data i" "\<not> controlByte (data ! i)"
  then show "escapedByte data i = [data ! i]"
    by (simp add: escapedByte_def escapeInString_plain)
next
  fix i
  assume "\<not> insideString data i"
  then show "escapedByte data i = [data ! i]"
    by (simp add: escapedByte_def)
next
  fix i
  assume "escapeConsumed data i"
  then show "escapedByte data i = [data ! i]"
    by (simp add: escapedByte_def)
qed

theorem preprocessJSON_escapes_in_strings_witness:
  "insideString [DQUOTE, CHR 0x1F, NL, DQUOTE, NL] 1
   \<and> \<not> escapeConsumed [DQUOTE, CHR 0x1F, NL, DQUOTE, NL] 1
   \<and> escapedByte [DQUOTE, CHR 0x1F, NL, DQUOTE, NL] 1 = BSLASH # ''u001f''
   \<and> insideString [DQUOTE, CHR 0x1F, NL, DQUOTE, NL] 2
   \<and> \<not> escapeConsumed [DQUOTE, CHR 0x1F, NL, DQUOTE, NL] 2
   \<and> escapedByte [DQUOTE, CHR 0x1F, NL, DQUOTE, NL] 2 = [BSLASH, CHR ''n'']
   \<and> \<not> insideString [DQUOTE, CHR 0x1F, NL, DQUOTE, NL] 4
   \<and> escapedByte [DQUOTE, CHR 0x1F, NL, DQUOTE, NL] 4 = [NL]
   \<and> preprocessJSON [DQUOTE, CHR 0x1F, NL, DQUOTE, NL]
       = Inr ([DQUOTE] @ BSLASH # ''u001f'' @ [BSLASH, CHR ''n'', DQUOTE, NL])"
proof -
  let ?d = "[DQUOTE, CHR 0x1F, NL, DQUOTE, NL]"
  have up: "[0 ..< 1] = [0]" "[0 ..< 2] = [0, Suc 0]" "[0 ..< 4] = [0, Suc 0, 2, 3]"
    by (simp_all add: upt_rec)
  have inside: "insideString ?d 1" "insideString ?d 2" "\<not> insideString ?d 4"
    by (simp_all add: insideString_def togglingQuote_def backslashesBefore_def up)
  have esc: "\<not> escapeConsumed ?d 1" "\<not> escapeConsumed ?d 2"
    by (simp_all add: escapeConsumed_def backslashesBefore_def)
  have ctl: "controlByte (CHR 0x1F)" by (simp add: controlByte_def)
  have out: "preprocessJSON ?d
      = Inr ([DQUOTE] @ BSLASH # ''u001f'' @ [BSLASH, CHR ''n'', DQUOTE, NL])"
    by (simp add: preprocessJSON_def escapeInString_def sprintf_u04x_def hexDigit_def Let_def)
  from preprocessJSON_escapes_in_strings [of ?d] inside esc ctl out
  show ?thesis by simp
qed

text \<open>
  The claim as stated: in the text quote, backslash, newline, quote the newline is inside
  a string literal and stays as it is, because it follows a backslash.
\<close>

theorem preprocessJSON_escapes_in_strings_counterexample:
  "preprocessJSON [DQUOTE, BSLASH, NL, DQUOTE] = Inr [DQUOTE, BSLASH, NL, DQUOTE]
   \<and> [DQUOTE, BSLASH, NL, DQUOTE] ! 2 = NL
   \<and> insideString [DQUOTE, BSLASH, NL, DQUOTE] 2"
proof -
  have up: "[0 ..< 2] = [0, Suc 0]" by (simp add: upt_rec)
  show ?thesis
    by (simp add: preprocessJSON_def insideString_def togglingQuote_def
        backslashesBefore_def up)
qed

section \<open>The comment stripper\<close>

lemma trimLeftSpace_Nil: "trimLeftSpace [] = []"
  by (simp add: trimLeftSpace.simps)

lemma TrimSpace_Nil: "TrimSpace [] = []"
  by (simp add: TrimSpace_def trimLeftSpace.simps trimRevSpace.simps)

lemma stripLines_lineStates:
  "stripLines b lines
     = concat (map (\<lambda>(p, b'). p @ [NL])
         (filter (\<lambda>(p, b'). TrimSpace p \<noteq> [] \<or> \<not> b') (lineStates b lines)))"
  by (induction lines arbitrary: b) (auto split: prod.splits)

lemma stripLine_head:
  "d \<noteq> CHR ''/'' \<Longrightarrow> \<exists>out b. stripLine False (d # rest) = (d # out, b)"
  by (cases rest) (auto split: prod.splits)

lemma stripLine_clean:
  "stripLine False (fst (stripLine b line)) = (fst (stripLine b line), False)"
proof (induction b line rule: stripLine.induct)
  case (5 c d rest)
  show ?case
  proof (cases "c = CHR ''/'' \<and> (d = CHR ''*'' \<or> d = CHR ''/'')")
    case True
    with 5 show ?thesis by auto
  next
    case False
    obtain out b where out: "stripLine False (d # rest) = (out, b)"
      by (cases "stripLine False (d # rest)")
    with False 5 have IH: "stripLine False out = (out, False)" by auto
    from False out have res: "fst (stripLine False (c # d # rest)) = c # out"
      by auto
    show ?thesis
    proof (cases out)
      case Nil
      with res show ?thesis by simp
    next
      case (Cons e out')
      have "\<not> (c = CHR ''/'' \<and> (e = CHR ''*'' \<or> e = CHR ''/''))"
      proof (cases "c = CHR ''/''")
        case True
        with False have "d \<noteq> CHR ''/''" "d \<noteq> CHR ''*''" by auto
        from stripLine_head [OF this(1), of rest] out Cons have "e = d" by auto
        with \<open>d \<noteq> CHR ''/''\<close> \<open>d \<noteq> CHR ''*''\<close> show ?thesis by simp
      next
        case False
        then show ?thesis by simp
      qed
      with IH Cons res show ?thesis by auto
    qed
  qed
qed auto

lemma stripLine_subset: "set (fst (stripLine b line)) \<subseteq> set line"
  by (induction b line rule: stripLine.induct) (auto split: prod.splits)

lemma Split_no_NL: "l \<in> set (Split s) \<Longrightarrow> NL \<notin> set l"
  by (induction s arbitrary: l) (auto split: if_splits list.splits)

lemma Split_line: "NL \<notin> set l \<Longrightarrow> Split (l @ NL # t) = l # Split t"
  by (induction l) auto

lemma Split_terminated:
  "\<forall>l \<in> set ls. NL \<notin> set l \<Longrightarrow> Split (concat (map (\<lambda>l. l @ [NL]) ls)) = ls @ [[]]"
  by (induction ls) (auto simp: Split_line)

lemma stripLines_clean:
  "\<forall>l \<in> set ls. stripLine False l = (l, False) \<Longrightarrow>
     stripLines False (ls @ [[]]) = concat (map (\<lambda>l. l @ [NL]) ls) @ [NL]"
  by (induction ls) auto

lemma lineStates_clean:
  "(p, b') \<in> set (lineStates b lines) \<Longrightarrow> stripLine False p = (p, False)"
proof (induction lines arbitrary: b)
  case Nil
  then show ?case by simp
next
  case (Cons l lines)
  obtain q c where q: "stripLine b l = (q, c)" by (cases "stripLine b l")
  from stripLine_clean [of b l] q have "stripLine False q = (q, False)" by simp
  with Cons q show ?case by auto
qed

lemma lineStates_no_NL:
  "(p, b') \<in> set (lineStates b lines) \<Longrightarrow> \<forall>l \<in> set lines. NL \<notin> set l \<Longrightarrow> NL \<notin> set p"
proof (induction lines arbitrary: b)
  case Nil
  then show ?case by simp
next
  case (Cons l lines)
  obtain q c where q: "stripLine b l = (q, c)" by (cases "stripLine b l")
  from stripLine_subset [of b l] q have "set q \<subseteq> set l" by simp
  with Cons q show ?case by auto
qed

text \<open>
  C3 (as the code has it).  The output of the comment stripper is made of the processed
  lines, in order, each followed by a newline, of exactly those lines that have
  non-white-space content after comment removal or after which no block comment is open.
  A line is dropped only when it is blank after stripping while a block comment is still
  open.
\<close>

theorem removeComments_emits:
  "removeComments code
     = concat (map (\<lambda>(p, b'). p @ [NL])
         (filter (\<lambda>(p, b'). TrimSpace p \<noteq> [] \<or> \<not> b')
            (lineStates False (Split code))))"
  by (simp add: removeComments_def stripLines_lineStates)

theorem removeComments_emits_witness:
  "lineStates False (Split ''x//y'') = [(''x'', False)]
   \<and> removeComments ''x//y'' = ''x'' @ [NL]"
  using removeComments_emits [of "''x//y''"]
  by (simp add: TrimSpace_def trimLeftSpace.simps trimRevSpace.simps)

text \<open>
  The claim as it was stated fails on both sides: the line \<open>/*\<close> leaves a block
  comment open and is dropped; the empty line has no content, no block comment is open
  after it, and it is emitted.
\<close>

theorem removeComments_emits_counterexample:
  "lineStates False (Split ''/*'') = [([], True)] \<and> removeComments ''/*'' = []
   \<and> lineStates False (Split []) = [([], False)] \<and> TrimSpace [] = []
   \<and> removeComments [] = [NL]"
  by (simp add: removeComments_def TrimSpace_def trimLeftSpace.simps trimRevSpace.simps)

text \<open>
  C4 (as the code has it).  Every emitted line is written with a newline after it, and the
  stripped text has no comment left, so a second run keeps every byte and adds one
  newline: the output of the second run is the output of the first followed by a newline.
\<close>

theorem removeComments_twice:
  "removeComments (removeComments code) = removeComments code @ [NL]"
proof -
  let ?ls = "map fst (filter (\<lambda>(p, b'). TrimSpace p \<noteq> [] \<or> \<not> b')
               (lineStates False (Split code)))"
  have out: "removeComments code = concat (map (\<lambda>l. l @ [NL]) ?ls)"
    by (simp add: removeComments_def stripLines_lineStates map_concat comp_def
        case_prod_unfold)
  have clean: "\<forall>l \<in> set ?ls. stripLine False l = (l, False)"
    by (auto dest: lineStates_clean)
  have noNL: "\<forall>l \<in> set ?ls. NL \<notin> set l"
    using Split_no_NL [of _ code] by (auto dest!: lineStates_no_NL)
  have "removeComments (removeComments code) = stripLines False (?ls @ [[]])"
    unfolding out removeComments_def [of "concat _"] Split_terminated [OF noNL] ..
  also have "\<dots> = concat (map (\<lambda>l. l @ [NL]) ?ls) @ [NL]"
    by (rule stripLines_clean [OF clean])
  finally show ?thesis by (simp only: out)
qed

text \<open>The stripper is not idempotent: already on the text \<open>a\<close>.\<close>

theorem removeComments_twice_counterexample:
  "removeComments ''a'' = [CHR ''a'', NL]
   \<and> removeComments (removeComments ''a'') = [CHR ''a'', NL, NL]
   \<and> removeComments (removeComments ''a'') \<noteq> removeComments ''a''"
  by (simp add: removeComments_def TrimSpace_def trimLeftSpace.simps trimRevSpace.simps)

section \<open>The variable-type inferencer\<close>

lemma zeroValue_in: "zeroValue t = Some v \<Longrightarrow> v \<in> set zeroValues"
  by (auto simp: zeroValue_def zeroValues_def split: if_splits)

lemma wrap64_id: "- (2 ^ 63) \<le> x \<Longrightarrow> x < 2 ^ 63 \<Longrightarrow> wrap64 x = x"
  by (simp add: wrap64_def)

lemma chainWalk_in_range:
  "j < int (length lines) \<Longrightarrow>
     \<exists>r. chainWalk lines lineIndex j = Inr r \<and> (r = None \<or> (\<exists>v \<in> set zeroValues. r = Some v))"
proof (induction lines lineIndex j rule: chainWalk.induct)
  case (1 lines lineIndex j)
  show ?case
  proof (cases "0 \<le> j \<and> wrap64 (lineIndex - 20) \<le> j")
    case False
    then show ?thesis by (subst chainWalk.simps) auto
  next
    case True
    note inLoop = this
    from "1.prems" have notOut: "\<not> int (length lines) \<le> j" by simp
    from "1.prems" have prev: "j - 1 < int (length lines)" by simp
    let ?prevLine = "TrimSpace (lines ! nat j)"
    show ?thesis
    proof (cases "?prevLine = []")
      case True
      have "\<exists>r. chainWalk lines lineIndex (j - 1) = Inr r
                  \<and> (r = None \<or> (\<exists>v \<in> set zeroValues. r = Some v))"
        using "1.IH" inLoop notOut True prev by auto
      with inLoop notOut True
      show ?thesis by (subst chainWalk.simps) (simp add: Let_def)
    next
      case False
      note nonEmpty = this
      show ?thesis
      proof (cases "HasSuffix ?prevLine '',''")
        case False
        with inLoop notOut nonEmpty show ?thesis
          by (subst chainWalk.simps)
            (auto simp: Let_def dest: zeroValue_in split: option.splits)
      next
        case True
        note comma = this
        show ?thesis
        proof (cases "FindStringSubmatch chainTypePattern ?prevLine")
          case None
          have "\<exists>r. chainWalk lines lineIndex (j - 1) = Inr r
                  \<and> (r = None \<or> (\<exists>v \<in> set zeroValues. r = Some v))"
            using "1.IH" inLoop notOut nonEmpty comma None prev by auto
          with inLoop notOut nonEmpty comma None show ?thesis
            by (subst chainWalk.simps) (simp add: Let_def)
        next
          case (Some matches)
          show ?thesis
          proof (cases "zeroValue (matches ! 1)")
            case None
            have "\<exists>r. chainWalk lines lineIndex (j - 1) = Inr r
                  \<and> (r = None \<or> (\<exists>v \<in> set zeroValues. r = Some v))"
              using "1.IH" inLoop notOut nonEmpty comma Some None prev by auto
            with inLoop notOut nonEmpty comma Some None show ?thesis
              by (subst chainWalk.simps) (simp add: Let_def)
          next
            case (Some v)
            with inLoop notOut nonEmpty comma \<open>FindStringSubmatch chainTypePattern ?prevLine = Some matches\<close>
            show ?thesis
              by (subst chainWalk.simps) (auto simp: Let_def dest: zeroValue_in)
          qed
        qed
      qed
    qed
  qed
qed

lemma determineVariableType_returns:
  assumes "- (2 ^ 63) < lineIndex" "lineIndex < 2 ^ 63" "lineIndex \<le> int (length lines)"
  shows "\<exists>v \<in> set zeroValues. determineVariableType varName code lines lineIndex = Inr v"
proof -
  from assms have w: "wrap64 (lineIndex - 1) = lineIndex - 1"
    by (intro wrap64_id) auto
  from assms have "lineIndex - 1 < int (length lines)" by simp
  from chainWalk_in_range [OF this, of lineIndex]
  obtain r where r: "chainWalk lines lineIndex (lineIndex - 1) = Inr r"
    "r = None \<or> (\<exists>v \<in> set zeroValues. r = Some v)"
    by blast
  show ?thesis
  proof (cases r)
    case None
    with r w show ?thesis
      by (simp add: determineVariableType_def zeroValues_def Let_def)
  next
    case (Some v)
    with r w show ?thesis
      by (auto simp: determineVariableType_def)
  qed
qed

lemma determineVariableType_panics:
  assumes "int (length lines) < lineIndex" "lineIndex < 2 ^ 63"
  shows "determineVariableType varName code lines lineIndex = Inl IndexOutOfRange"
proof -
  from assms have pos: "0 < lineIndex" by (smt (verit) of_nat_0_le_iff)
  with assms have w: "wrap64 (lineIndex - 1) = lineIndex - 1"
    "wrap64 (lineIndex - 20) = lineIndex - 20"
    by (auto intro!: wrap64_id)
  from assms pos have "chainWalk lines lineIndex (lineIndex - 1) = Inl IndexOutOfRange"
    by (subst chainWalk.simps) (simp add: w)
  then show ?thesis
    by (simp add: determineVariableType_def w)
qed

text \<open>
  C10 (as the code has it).  For an identifier (a word of ASCII letters, digits and
  underscores) and a line index that is at most the number of lines (negative indices
  and the empty array included) the inferencer returns one of the six zero-value
  initializers.  For a larger index the first read \<open>lines[lineIndex-1]\<close> of the chain
  walk is out of range and the function panics.
\<close>

theorem determineVariableType_total:
  "((\<forall>c \<in> set varName. isWord c) \<and>
    - (2 ^ 63) < lineIndex \<and> lineIndex < 2 ^ 63 \<and> lineIndex \<le> int (length lines) \<longrightarrow>
      (\<exists>v \<in> set zeroValues. determineVariableType varName code lines lineIndex = Inr v))
   \<and> (int (length lines) < lineIndex \<and> lineIndex < 2 ^ 63 \<longrightarrow>
        determineVariableType varName code lines lineIndex = Inl IndexOutOfRange)"
  using determineVariableType_returns [of lineIndex lines varName code]
    determineVariableType_panics [of lines lineIndex varName code]
  by blast

theorem determineVariableType_total_witness:
  "determineVariableType ''a'' []  [''float i = 1,''] 1 = Inr ''0.0''
   \<and> ''0.0'' \<in> set zeroValues
   \<and> determineVariableType ''a'' [] [] (- 3) = Inr ''vec2(0.0)''
   \<and> determineVariableType ''a'' [] [''x''] 2 = Inl IndexOutOfRange"
  using determineVariableType_total
      [where varName = "''a''" and code = "[]" and lines = "[''float i = 1,'']" and lineIndex = 1]
    determineVariableType_total
      [where varName = "''a''" and code = "[]" and lines = "[''x'']" and lineIndex = 2]
  by code_simp

text \<open>The claim as stated: an index past the end of the array is an error.\<close>

theorem determineVariableType_total_counterexample:
  "determineVariableType ''a'' [] [] 1 = Inl IndexOutOfRange"
  by code_simp

section \<open>The chain form of the uninitialized-variable fixer\<close>

text \<open>
  A chain line \<open>T a = x, b;\<close> with a type \<open>T\<close> of the six, words \<open>a\<close> and \<open>b\<close> and
  an initializer \<open>x\<close> without a semicolon, on which the fixer's test for an initialized
  \<open>b\<close> does not fire, is rewritten to \<open>T a = x, b = <zero of T>;\<close> and \<open>b\<close> is
  recorded with its zero value: by the loop body at the line, and by the whole first loop
  over the text, which does not panic and changes a line only at its own index.
\<close>

lemma zeroValue_text:
  "zeroValue T = Some Z \<Longrightarrow>
     Z \<noteq> [] \<and> CHR '';'' \<notin> set T \<and> (\<exists>t0 T'. T = t0 # T' \<and> asciiText t0 \<and> isWord t0)"
  by (auto simp: zeroValue_def asciiText_def asciiSpace_def isWord_def isAlpha_def
      split: if_splits)

lemma fixChainVar_rewrites:
  assumes z: "zeroValue T = Some Z"
    and a: "a \<noteq> []" "\<forall>c \<in> set a. isWord c"
    and b: "b \<noteq> []" "\<forall>c \<in> set b. isWord c"
    and x: "CHR '';'' \<notin> set x"
    and line: "lines ! i = T @ '' '' @ a @ '' = '' @ x @ '', '' @ b @ '';''"
    and guard: "\<not> Contains (lines ! i) (b @ '' ='')"
  shows "firstPassLine code i (lines, vars)
           = Inr (lines[i := T @ '' '' @ a @ '' = '' @ x @ '', '' @ b @ '' = '' @ Z @ '';''],
                  mapPut b Z vars)"
proof -
  let ?pre = "T @ '' '' @ a @ '' = '' @ x"
  let ?L = "?pre @ '', '' @ b @ '';''"
  have L: "lines ! i = ?L" using line by simp
  from zeroValue_text [OF z] obtain t0 T' where
    T: "Z \<noteq> []" "CHR '';'' \<notin> set T" "T = t0 # T'" "asciiText t0" "isWord t0"
    by blast
  have na: "CHR '';'' \<notin> set a" using a(2) isWord_not_punct by blast
  have nb: "CHR '';'' \<notin> set b" using b(2) isWord_not_punct by blast
  have npre: "CHR '';'' \<notin> set ?pre" using T(2) na x by simp
  have "asciiText (CHR '';'')" by (simp add: asciiText_def asciiSpace_def)
  from TrimSpace_text [OF T(4) this, of "T' @ '' '' @ a @ '' = '' @ x @ '', '' @ b"]
  have trim: "TrimSpace ?L = ?L" using T(3) by simp
  then have nonEmpty: "TrimSpace (lines ! i) \<noteq> []" using L T(3) by simp
  from FindStringSubmatch_chain [OF npre b] obtain whole where
    chain: "FindStringSubmatch chainVarPattern (lines ! i) = Some [whole, b]"
    using L by auto
  from a obtain a0 a' where a0: "a = a0 # a'" "isWord a0" by (cases a) auto
  from FindStringSubmatch_typeDecl [OF z a0(2), of "a' @ '' = '' @ x @ '', '' @ b @ '';''"]
  obtain whole' where
    ty: "FindStringSubmatch typeDeclPattern (lines ! i) = Some [whole', T]"
    using L a0(1) by auto
  have "Replace1 (?pre @ ('', '' @ b) @ '';'') (('', '' @ b) @ '';'')
          ('', '' @ b @ '' = '' @ Z @ '';'') = ?pre @ '', '' @ b @ '' = '' @ Z @ '';''"
    by (rule Replace1_last) (use npre nb in simp_all)
  then have repl: "Replace1 (lines ! i) ('', '' @ b @ '';'') ('', '' @ b @ '' = '' @ Z @ '';'')
      = T @ '' '' @ a @ '' = '' @ x @ '', '' @ b @ '' = '' @ Z @ '';''"
    using L by simp
  have "fixChainVar code i [whole, b] (lines, vars)
          = Inr (lines[i := T @ '' '' @ a @ '' = '' @ x @ '', '' @ b @ '' = '' @ Z @ '';''],
                 mapPut b Z vars)"
    using guard T(1) repl by (simp add: fixChainVar_def ty z Let_def)
  then show ?thesis
    using nonEmpty by (simp add: firstPassLine_def chain Let_def)
qed

lemma firstPassLine_frame:
  assumes "i < length lines" "length lines < 2 ^ 63"
  shows "\<exists>lines' vars'. firstPassLine code i (lines, vars) = Inr (lines', vars')
           \<and> length lines' = length lines \<and> (\<forall>j. j \<noteq> i \<longrightarrow> lines' ! j = lines ! j)"
proof -
  from assms have "- (2 ^ 63) < int i" "int i < 2 ^ 63" "int i \<le> int (length lines)"
    by simp_all
  from determineVariableType_returns [OF this]
  have dvt: "\<exists>v. determineVariableType varName code lines (int i) = Inr v" for varName
    by blast
  from assms(1) have scope: "\<exists>r. findFunctionScope lines i = Inr r"
    by (simp add: findFunctionScope_def)
  have chain: "\<exists>lines' vars'. fixChainVar code i matches (lines, vars) = Inr (lines', vars')
           \<and> length lines' = length lines \<and> (\<forall>j. j \<noteq> i \<longrightarrow> lines' ! j = lines ! j)"
    for matches
    using dvt [of "matches ! 1"]
    by (auto simp: fixChainVar_def Let_def split: option.splits sum.splits)
  have standalone: "\<exists>lines' vars'. fixStandaloneVar code i matches (lines, vars) = Inr (lines', vars')
           \<and> length lines' = length lines \<and> (\<forall>j. j \<noteq> i \<longrightarrow> lines' ! j = lines ! j)"
    for matches
    using dvt [of "matches ! 1"] scope
    by (auto simp: fixStandaloneVar_def Let_def split: option.splits sum.splits)
  have decl: "\<exists>lines' vars'. fixUninitDecl i matches (lines, vars) = Inr (lines', vars')
           \<and> length lines' = length lines \<and> (\<forall>j. j \<noteq> i \<longrightarrow> lines' ! j = lines ! j)"
    for matches
    using scope
    by (auto simp: fixUninitDecl_def Let_def split: option.splits sum.splits)
  show ?thesis
    using chain standalone decl
    by (auto simp: firstPassLine_def Let_def split: option.splits)
qed

lemma forLines_append:
  "forLines body (xs @ ys) st
     = (case forLines body xs st of Inl p \<Rightarrow> Inl p | Inr st' \<Rightarrow> forLines body ys st')"
  by (induction xs arbitrary: st) (auto split: sum.splits)

lemma forLines_firstPass_frame:
  assumes "length lines < 2 ^ 63" "\<forall>j \<in> set js. j < length lines"
  shows "\<exists>lines' vars'. forLines (firstPassLine code) js (lines, vars) = Inr (lines', vars')
           \<and> length lines' = length lines \<and> (\<forall>j. j \<notin> set js \<longrightarrow> lines' ! j = lines ! j)"
  using assms
proof (induction js arbitrary: lines vars)
  case Nil
  then show ?case by simp
next
  case (Cons i js)
  then have "i < length lines" by simp
  from firstPassLine_frame [OF this Cons.prems(1), of code vars]
  obtain lines1 vars1 where
    s1: "firstPassLine code i (lines, vars) = Inr (lines1, vars1)"
    "length lines1 = length lines" "\<forall>j. j \<noteq> i \<longrightarrow> lines1 ! j = lines ! j"
    by blast
  from Cons.prems s1(2) have "length lines1 < 2 ^ 63" "\<forall>j \<in> set js. j < length lines1"
    by simp_all
  from Cons.IH [OF this, of vars1]
  obtain lines2 vars2 where
    s2: "forLines (firstPassLine code) js (lines1, vars1) = Inr (lines2, vars2)"
    "length lines2 = length lines1" "\<forall>j. j \<notin> set js \<longrightarrow> lines2 ! j = lines1 ! j"
    by blast
  from s1 s2 show ?case by auto
qed

lemma first_pass_rewrites_chain:
  assumes z: "zeroValue T = Some Z"
    and a: "a \<noteq> []" "\<forall>c \<in> set a. isWord c"
    and b: "b \<noteq> []" "\<forall>c \<in> set b. isWord c"
    and x: "CHR '';'' \<notin> set x"
    and i: "i < length lines" "length lines < 2 ^ 63"
    and line: "lines ! i = T @ '' '' @ a @ '' = '' @ x @ '', '' @ b @ '';''"
    and guard: "\<not> Contains (lines ! i) (b @ '' ='')"
  shows "\<exists>lines' vars'.
           forLines (firstPassLine code) [0 ..< length lines] (lines, []) = Inr (lines', vars')
           \<and> lines' ! i = T @ '' '' @ a @ '' = '' @ x @ '', '' @ b @ '' = '' @ Z @ '';''"
proof -
  let ?R = "T @ '' '' @ a @ '' = '' @ x @ '', '' @ b @ '' = '' @ Z @ '';''"
  let ?f = "firstPassLine code"
  have range: "[0 ..< length lines] = [0 ..< i] @ i # [Suc i ..< length lines]"
  proof -
    from i(1) have "[0 ..< length lines] = [0 ..< i] @ [i ..< length lines]"
      using upt_add_eq_append [of 0 i "length lines - i"] by simp
    also from i(1) have "[i ..< length lines] = i # [Suc i ..< length lines]"
      by (rule upt_conv_Cons)
    finally show ?thesis .
  qed
  from i have "\<forall>j \<in> set [0 ..< i]. j < length lines" by simp
  from forLines_firstPass_frame [OF i(2) this, of code "[]"]
  obtain lines1 vars1 where
    s1: "forLines ?f [0 ..< i] (lines, []) = Inr (lines1, vars1)"
    "length lines1 = length lines" "\<forall>j. j \<notin> set [0 ..< i] \<longrightarrow> lines1 ! j = lines ! j"
    by blast
  from s1(3) have same: "lines1 ! i = lines ! i" by simp
  from fixChainVar_rewrites [OF z a b x, of lines1 i code vars1] line guard same
  have s2: "?f i (lines1, vars1) = Inr (lines1[i := ?R], mapPut b Z vars1)"
    by simp
  from i s1(2) have "length (lines1[i := ?R]) < 2 ^ 63"
    "\<forall>j \<in> set [Suc i ..< length lines]. j < length (lines1[i := ?R])"
    by simp_all
  from forLines_firstPass_frame [OF this, of code "mapPut b Z vars1"]
  obtain lines3 vars3 where
    s3: "forLines ?f [Suc i ..< length lines] (lines1[i := ?R], mapPut b Z vars1)
           = Inr (lines3, vars3)"
    "\<forall>j. j \<notin> set [Suc i ..< length lines] \<longrightarrow> lines3 ! j = (lines1[i := ?R]) ! j"
    by blast
  from s3(2) i(1) s1(2) have "lines3 ! i = ?R" by simp
  moreover have "forLines ?f [0 ..< length lines] (lines, []) = Inr (lines3, vars3)"
    using s1(1) s2 s3(1) by (subst range) (simp add: forLines_append)
  ultimately show ?thesis by blast
qed

text \<open>
  The input of scenario B: \<open>a\<close> is initialized to \<open>0.0\<close> in the chain and the loop is
  left as it is, in whatever order the map is ranged over.
\<close>

lemma isRangeOrder_single: "isRangeOrder order \<Longrightarrow> order idx [entry] = [entry]"
proof -
  assume "isRangeOrder order"
  then have "mset (order idx [entry]) = {#entry#}" by (simp add: isRangeOrder_def)
  then show ?thesis by (simp only: mset_single_iff)
qed

lemma scenario_B_front:
  "repairBeforeLoops (''float i = .2, a;'' @ [NL] @ ''for(int j=0;j<8;j++){ a += i; }'' @ [NL])
     = Inr (''float i = .2, a = 0.0;'' @ [NL] @ ''for(int j=0;j<8;j++){ a += i; }'',
            [(''a'', ''0.0'')])"
  by code_simp

lemma scenario_B_loops:
  "Contains (''float i = .2, a = 0.0;'' @ [NL] @ ''for(int j=0;j<8;j++){ a += i; }'') ''for(''
   \<and> FindAllStringIndex loopPattern
         (''float i = .2, a = 0.0;'' @ [NL] @ ''for(int j=0;j<8;j++){ a += i; }'') = [(23, 43)]
   \<and> preinitLoop [(''a'', ''0.0'')] (23, 43)
         (''float i = .2, a = 0.0;'' @ [NL] @ ''for(int j=0;j<8;j++){ a += i; }'')
       = ''float i = .2, a = 0.0;'' @ [NL] @ ''for(int j=0;j<8;j++){ a += i; }''"
  by code_simp

lemma scenario_B:
  assumes "isRangeOrder order"
  shows "fixShaderCode order
           (''float i = .2, a;'' @ [NL] @ ''for(int j=0;j<8;j++){ a += i; }'' @ [NL])
         = Inr (''float i = .2, a = 0.0;'' @ [NL] @ ''for(int j=0;j<8;j++){ a += i; }'')"
proof -
  let ?mid = "''float i = .2, a = 0.0;'' @ [NL] @ ''for(int j=0;j<8;j++){ a += i; }''"
  have o: "order 0 [(''a'', ''0.0'')] = [(''a'', ''0.0'')]"
    by (rule isRangeOrder_single [OF assms])
  from scenario_B_loops have "loopPreinit order [(''a'', ''0.0'')] ?mid = ?mid"
    by (simp add: loopPreinit_def o del: Contains.simps)
  then show ?thesis
    by (simp only: fixShaderCode_def scenario_B_front sum.case prod.case)
qed

text \<open>
  C6.  The fixer's test for "already initialized" is \<open>strings.Contains(line,
  varName+" =")\<close>, a test on the text of the line.  The line \<open>float ba = .2, a;\<close> is
  a chain \<open>T a = x, b;\<close> whose last variable \<open>a\<close> has no initializer, but the text
  \<open>a =\<close> occurs in it, inside \<open>ba =\<close>: the fixer takes \<open>a\<close> for initialized,
  records nothing and leaves the line as it is, and so does the whole pipeline.  The same
  chain with the first variable named \<open>b\<close> is rewritten to \<open>float b = .2, a = 0.0;\<close>.
\<close>

theorem chain_guard_substring:
  "Contains ''float ba = .2, a;'' (''a'' @ '' ='')
   \<and> firstPassLine ''float ba = .2, a;'' 0 ([''float ba = .2, a;''], [])
       = Inr ([''float ba = .2, a;''], [])
   \<and> fixShaderCode order (''float ba = .2, a;'' @ [NL]) = Inr ''float ba = .2, a;''
   \<and> firstPassLine ''float b = .2, a;'' 0 ([''float b = .2, a;''], [])
       = Inr ([''float b = .2, a = 0.0;''], [(''a'', ''0.0'')])
   \<and> fixShaderCode order (''float b = .2, a;'' @ [NL]) = Inr ''float b = .2, a = 0.0;''"
  by code_simp

section \<open>The orphaned-assignment remover in the pipeline\<close>

text \<open>
  C5 (as the code has it).  The line \<open>vec2 p = bpos.zx;\<close> starts with a type name:
  the pattern for an assignment without a declaration does not match it and the line is
  kept; the pipeline only drops the empty lines after it.  The same assignment without
  the type name is removed as orphaned, and the output is empty.
\<close>

theorem fixShaderCode_typed_declaration_kept:
  "fixShaderCode order (''vec2 p = bpos.zx;'' @ [NL]) = Inr ''vec2 p = bpos.zx;''
   \<and> removeOrphanedAssignments ''vec2 p = bpos.zx;'' = ''vec2 p = bpos.zx;''
   \<and> fixShaderCode order (''p = bpos.zx;'' @ [NL]) = Inr []"
  by code_simp

theorem fixShaderCode_scenario_A_counterexample:
  "fixShaderCode (\<lambda>idx vars. vars) (''vec2 p = bpos.zx;'' @ [NL]) \<noteq> Inr []"
  by code_simp

section \<open>The duplicate-output-declaration fixer\<close>

text \<open>
  C8.  When the signature of \<open>mainImage\<close> and the declaration stand on one line, the
  fixer cuts the line at the first \<open>fragColor\<close>, which is the parameter: the
  signature is lost and the declaration \<open>vec4 fragColor =\<close> is still there.
\<close>

theorem fixMainImageFragColor_one_line:
  "fixMainImageFragColor
     ''void mainImage(out vec4 fragColor, in vec2 fragCoord) { vec4 fragColor = vec4(0.0); }''
   = ''fragColor, in vec2 fragCoord) { vec4 fragColor = vec4(0.0); }''
   \<and> Contains (fixMainImageFragColor
     ''void mainImage(out vec4 fragColor, in vec2 fragCoord) { vec4 fragColor = vec4(0.0); }'')
     ''vec4 fragColor =''
   \<and> fixShaderCode order
     (''void mainImage(out vec4 fragColor, in vec2 fragCoord) { vec4 fragColor = vec4(0.0); }''
        @ [NL])
     = Inr ''fragColor, in vec2 fragCoord) { vec4 fragColor = vec4(0.0); }''"
  by code_simp

text \<open>
  With the signature on a line of its own the declaration does become an assignment; the
  indentation is written as blanks, one for each blank or tab of the line.
\<close>

lemma fixMainImageFragColor_two_lines:
  "fixMainImageFragColor
     (''void mainImage(out vec4 fragColor, in vec2 fragCoord) {'' @ [NL, TAB]
        @ ''vec4 fragColor = vec4(0.0);'' @ [NL] @ ''}'')
   = ''void mainImage(out vec4 fragColor, in vec2 fragCoord) {'' @ [NL]
       @ '' fragColor = vec4(0.0);'' @ [NL] @ ''}''"
  by code_simp

section \<open>The loop-preinitialization pass\<close>











end
